theory Spec2Isabelle
  imports Main
begin

section \<open>Time values of the JavaScript \<open>Date\<close> object\<close>

text \<open>
  The entitlement ledger computes expiry dates with the setters of the JavaScript
  \<open>Date\<close> object.  A \<open>Date\<close> holds a time value: the number of milliseconds since
  1970-01-01T00:00:00Z, or NaN for an invalid date.  The functions below follow the
  abstract operations of the language standard (Day, TimeWithinDay, DayFromYear,
  YearFromTime, MonthFromTime, DateFromTime, MakeDay, MakeDate, TimeClip, LocalTime,
  UTC).
  Numbers are the integers: the duration column of a bundle is an integer column.
\<close>

datatype jsdate = InvalidDate | TimeValue int

definition msPerDay :: int where
  "msPerDay = 86400000"

definition Day :: "int \<Rightarrow> int" where
  "Day t = t div msPerDay"

definition TimeWithinDay :: "int \<Rightarrow> int" where
  "TimeWithinDay t = t mod msPerDay"

definition InLeapYearOf :: "int \<Rightarrow> bool" where
  "InLeapYearOf y = (y mod 4 = 0 \<and> (y mod 100 \<noteq> 0 \<or> y mod 400 = 0))"

definition DaysInYear :: "int \<Rightarrow> int" where
  "DaysInYear y = (if InLeapYearOf y then 366 else 365)"

definition DayFromYear :: "int \<Rightarrow> int" where
  "DayFromYear y =
     365 * (y - 1970) + (y - 1969) div 4 - (y - 1901) div 100 + (y - 1601) div 400"

text \<open>
  The year of a day number is the largest \<open>y\<close> with \<open>DayFromYear y \<le> d\<close>.  It is
  computed from the mean length of a year (146097 days in 400 years), corrected by at
  most one year in either direction.
\<close>

definition YearFromDay :: "int \<Rightarrow> int" where
  "YearFromDay d =
     (let y = 1970 + (d * 400) div 146097
      in if d < DayFromYear y then y - 1
         else if DayFromYear (y + 1) \<le> d then y + 1
         else y)"

definition YearFromTime :: "int \<Rightarrow> int" where
  "YearFromTime t = YearFromDay (Day t)"

definition DayWithinYear :: "int \<Rightarrow> int" where
  "DayWithinYear t = Day t - DayFromYear (YearFromTime t)"

text \<open>Number of days of the year that precede month \<open>m\<close> (0 = January).\<close>

definition DaysBeforeMonth :: "bool \<Rightarrow> int \<Rightarrow> int" where
  "DaysBeforeMonth leap m =
     (let l = (if leap then 1 else 0)
      in if m = 0 then 0
         else if m = 1 then 31
         else if m = 2 then 59 + l
         else if m = 3 then 90 + l
         else if m = 4 then 120 + l
         else if m = 5 then 151 + l
         else if m = 6 then 181 + l
         else if m = 7 then 212 + l
         else if m = 8 then 243 + l
         else if m = 9 then 273 + l
         else if m = 10 then 304 + l
         else 334 + l)"

definition MonthFromTime :: "int \<Rightarrow> int" where
  "MonthFromTime t =
     (let w = DayWithinYear t; l = (if InLeapYearOf (YearFromTime t) then 1 else 0)
      in if w < 31 then 0
         else if w < 59 + l then 1
         else if w < 90 + l then 2
         else if w < 120 + l then 3
         else if w < 151 + l then 4
         else if w < 181 + l then 5
         else if w < 212 + l then 6
         else if w < 243 + l then 7
         else if w < 273 + l then 8
         else if w < 304 + l then 9
         else if w < 334 + l then 10
         else 11)"

definition DateFromTime :: "int \<Rightarrow> int" where
  "DateFromTime t =
     DayWithinYear t - DaysBeforeMonth (InLeapYearOf (YearFromTime t)) (MonthFromTime t) + 1"

definition MakeDay :: "int \<Rightarrow> int \<Rightarrow> int \<Rightarrow> int" where
  "MakeDay year month date =
     (let ym = year + month div 12; mn = month mod 12
      in DayFromYear ym + DaysBeforeMonth (InLeapYearOf ym) mn + date - 1)"

definition MakeDate :: "int \<Rightarrow> int \<Rightarrow> int" where
  "MakeDate day time = day * msPerDay + time"

definition TimeClip :: "int \<Rightarrow> jsdate" where
  "TimeClip t = (if \<bar>t\<bar> > 8640000000000000 then InvalidDate else TimeValue t)"

text \<open>
  The getters and setters of a \<open>Date\<close> work in the local time of the host.  A
  time zone is given by its offset from UTC (in milliseconds) before its first
  transition and by its transitions in increasing order, each with its UTC instant
  and the offset from then on.  \<open>LocalTime\<close> and \<open>UTC\<close> are the conversions of
  the standard: the first takes the offset in force at a UTC instant, the second
  reads a local time that a transition skips or repeats with the offset before the
  transition.
\<close>

record Zone =
  zoneBase :: int
  zoneTransitions :: "(int \<times> int) list"

fun offsetAt :: "int \<Rightarrow> (int \<times> int) list \<Rightarrow> int \<Rightarrow> int" where
  "offsetAt cur [] t = cur"
| "offsetAt cur ((inst, offs) # rest) t = (if inst \<le> t then offsetAt offs rest t else cur)"

fun localOffsetAt :: "int \<Rightarrow> (int \<times> int) list \<Rightarrow> int \<Rightarrow> int" where
  "localOffsetAt cur [] lt = cur"
| "localOffsetAt cur ((inst, offs) # rest) lt =
     (if inst + max cur offs \<le> lt then localOffsetAt offs rest lt else cur)"

definition LocalTime :: "Zone \<Rightarrow> int \<Rightarrow> int" where
  "LocalTime z t = t + offsetAt (zoneBase z) (zoneTransitions z) t"

definition UTC :: "Zone \<Rightarrow> int \<Rightarrow> int" where
  "UTC z lt = lt - localOffsetAt (zoneBase z) (zoneTransitions z) lt"

text \<open>
  \<open>now.setDate(v)\<close>, \<open>now.setMonth(v)\<close> and \<open>now.setFullYear(v)\<close> on a valid
  date \<open>now\<close> of a host in zone \<open>z\<close>, followed by \<open>new Date(...)\<close> of the number
  they return.
\<close>

definition setDate :: "Zone \<Rightarrow> int \<Rightarrow> int \<Rightarrow> jsdate" where
  "setDate z t dt =
     (let lt = LocalTime z t
      in TimeClip (UTC z (MakeDate (MakeDay (YearFromTime lt) (MonthFromTime lt) dt)
                            (TimeWithinDay lt))))"

definition setMonth :: "Zone \<Rightarrow> int \<Rightarrow> int \<Rightarrow> jsdate" where
  "setMonth z t m =
     (let lt = LocalTime z t
      in TimeClip (UTC z (MakeDate (MakeDay (YearFromTime lt) m (DateFromTime lt))
                            (TimeWithinDay lt))))"

definition setFullYear :: "Zone \<Rightarrow> int \<Rightarrow> int \<Rightarrow> jsdate" where
  "setFullYear z t y =
     (let lt = LocalTime z t
      in TimeClip (UTC z (MakeDate (MakeDay y (MonthFromTime lt) (DateFromTime lt))
                            (TimeWithinDay lt))))"

definition getDate :: "Zone \<Rightarrow> int \<Rightarrow> int" where
  "getDate z t = DateFromTime (LocalTime z t)"

definition getMonth :: "Zone \<Rightarrow> int \<Rightarrow> int" where
  "getMonth z t = MonthFromTime (LocalTime z t)"

definition getFullYear :: "Zone \<Rightarrow> int \<Rightarrow> int" where
  "getFullYear z t = YearFromTime (LocalTime z t)"

text \<open>\<open>Date.UTC(year, month, date)\<close> at midnight, for readable concrete dates.\<close>

definition utc :: "int \<Rightarrow> int \<Rightarrow> int \<Rightarrow> int" where
  "utc year month date = MakeDate (MakeDay year month date) 0"

text \<open>
  Two zones: UTC, and the zone of Toronto in 2025, five hours behind UTC, four from
  9 March 07:00 UTC to 2 November 06:00 UTC.
\<close>

definition utcZone :: Zone where
  "utcZone = \<lparr>zoneBase = 0, zoneTransitions = []\<rparr>"


section \<open>Duration arithmetic\<close>

text \<open>
  \<open>calculateExpiryDate\<close> of \<open>lib/types\<close>.  The duration type is a string column of
  the bundle table, cast to the union type without a check, so every string can
  arrive; the duration value is a nullable integer.  \<open>now\<close> is the value of
  \<open>new Date()\<close> and \<open>z\<close> the time zone of the host.  The result \<open>None\<close> is the
  source's \<open>null\<close>.
\<close>

definition calculateExpiryDate :: "Zone \<Rightarrow> int \<Rightarrow> string \<Rightarrow> int option \<Rightarrow> jsdate option" where
  "calculateExpiryDate z now durationType durationValue =
     (if durationType = ''lifetime'' \<or> durationValue = None \<or> durationValue = Some 0 then None
      else let v = the durationValue in
        if durationType = ''days'' then Some (setDate z now (getDate z now + v))
        else if durationType = ''months'' then Some (setMonth z now (getMonth z now + v))
        else if durationType = ''years'' then Some (setFullYear z now (getFullYear z now + v))
        else None)"

section \<open>Persistent state\<close>

text \<open>
  The tables of the store, as lists of rows in insertion order; \<open>findFirst\<close> and
  \<open>findUnique\<close> return the first row that matches.  Identity ids (generated strings
  in the source) and entitlement ids (an auto-increment column) are natural numbers
  drawn from a counter.  An optional column is an \<open>option\<close>.  Besides the tables the
  state records what the system sent out: the calls of the sync dispatcher and the
  confirmation emails, and two settings of the host: the admin API key and the time
  zone.  Timestamps are time values (milliseconds).  The \<open>details\<close>
  and \<open>payload\<close> documents of the log tables are not modelled.
\<close>

record Identity =
  identity_id :: nat
  primaryEmail :: string
  stripeCustomerId :: "string option"

record IdentityEmail =
  ie_identityId :: nat
  ie_email :: string
  ie_productId :: string

record Entitlement =
  ent_id :: nat
  identityId :: nat
  productId :: string
  source :: string
  sourceApp :: string
  bundleId :: "nat option"
  grantedAt :: int
  expiresAt :: "int option"
  revokedAt :: "int option"
  revokedReason :: "string option"
  stripeSubscriptionId :: "string option"
  stripePriceId :: "string option"
  amountPaid :: "int option"
  currency :: "string option"

record Bundle =
  bundle_id :: nat
  bundle_name :: string
  bundle_stripePriceId :: string
  productIds :: "string list"
  durationType :: string
  durationValue :: "int option"

record Product =
  product_id :: string
  formSchema :: "string option"

record ClaimToken =
  token :: string
  ct_identityId :: nat
  ct_bundleId :: nat
  purchaseEmail :: string
  stripeSessionId :: "string option"
  ct_expiresAt :: int
  claimed :: bool
  claimedAt :: "int option"

record ProductSubmission =
  ps_identityId :: nat
  ps_productId :: string
  formData :: string

record AuditLog =
  action :: string
  al_identityId :: nat
  al_productIds :: "string list"
  adminEmail :: "string option"

record WebhookLog =
  eventId :: string
  eventType :: string
  status :: string
  errorMessage :: "string option"

record SyncPush =
  sync_app :: string
  sync_email :: string
  sync_tier :: string
  sync_source :: string
  sync_reason :: string

record PurchaseEmailSent =
  mail_to :: string
  mail_bundleName :: string
  mail_productIds :: "string list"
  mail_expiresAt :: "jsdate option"

record state =
  identities :: "Identity list"
  identityEmails :: "IdentityEmail list"
  entitlements :: "Entitlement list"
  bundles :: "Bundle list"
  products :: "Product list"
  claimTokens :: "ClaimToken list"
  productSubmissions :: "ProductSubmission list"
  auditLogs :: "AuditLog list"
  webhookLogs :: "WebhookLog list"
  syncPushes :: "SyncPush list"
  emailsSent :: "PurchaseEmailSent list"
  nextIdentityId :: nat
  nextEntitlementId :: nat
  adminApiKey :: "string option"
  hostZone :: Zone

datatype error =
    NoCustomerEmail
  | NoLineItems
  | NoPriceId
  | GatewayFailure
  | InvalidClaimToken
  | TokenAlreadyClaimed
  | TokenExpired
  | EntitlementNotFound
  | InvalidDateArgument
  | RelationMissing
  | PersistenceFailure

fun message :: "error \<Rightarrow> string" where
  "message NoCustomerEmail = ''No customer email in session''"
| "message NoLineItems = ''No line items in session''"
| "message NoPriceId = ''No price ID in line items''"
| "message GatewayFailure = ''Gateway call failed''"
| "message InvalidClaimToken = ''Invalid claim token''"
| "message TokenAlreadyClaimed = ''Token already claimed''"
| "message TokenExpired = ''Token expired''"
| "message EntitlementNotFound = ''Entitlement not found''"
| "message InvalidDateArgument = ''Provided Date object is invalid''"
| "message RelationMissing = ''Inconsistent query result''"
| "message PersistenceFailure = ''Persistence failure''"

text \<open>
  \<open>String.prototype.toLowerCase\<close> on the ASCII letters; a character is a byte, and
  bytes outside \<open>A\<close>..\<open>Z\<close> are left as they are.
\<close>

definition lowerChar :: "char \<Rightarrow> char" where
  "lowerChar c =
     (let n = (of_char c :: nat) in if 65 \<le> n \<and> n \<le> 90 then char_of (n + 32) else c)"

definition toLowerCase :: "string \<Rightarrow> string" where
  "toLowerCase e = map lowerChar e"

text \<open>
  An \<open>undefined\<close> value in the data of an update leaves the column as it is;
  \<open>orKeep new old\<close> is the column after the update.
\<close>

definition orKeep :: "'a option \<Rightarrow> 'a option \<Rightarrow> 'a option" where
  "orKeep new old = (case new of None \<Rightarrow> old | Some v \<Rightarrow> Some v)"

section \<open>Identity directory\<close>

text \<open>\<open>getOrCreateIdentity\<close>: returns the identity and the new state.\<close>

definition getOrCreateIdentity :: "string \<Rightarrow> string option \<Rightarrow> state \<Rightarrow> Identity \<times> state" where
  "getOrCreateIdentity email customerId s =
     (let normalizedEmail = toLowerCase email
      in case find (\<lambda>i. primaryEmail i = normalizedEmail) (identities s) of
           None \<Rightarrow>
             (let i = \<lparr>identity_id = nextIdentityId s, primaryEmail = normalizedEmail,
                        stripeCustomerId = customerId\<rparr>
              in (i, s\<lparr>identities := identities s @ [i],
                       nextIdentityId := Suc (nextIdentityId s)\<rparr>))
         | Some i \<Rightarrow>
             if customerId \<noteq> None \<and> customerId \<noteq> Some [] \<and>
                (stripeCustomerId i = None \<or> stripeCustomerId i = Some [])
             then (i\<lparr>stripeCustomerId := customerId\<rparr>,
                   s\<lparr>identities :=
                        map (\<lambda>j. if identity_id j = identity_id i
                                  then j\<lparr>stripeCustomerId := customerId\<rparr> else j)
                          (identities s)\<rparr>)
             else (i, s))"

text \<open>
  The upsert of an email binding on its unique key (email, productId).  With
  \<open>rebind\<close> the existing row is moved to the given identity (\<open>update: {identityId}\<close>),
  without it the existing row is left alone (\<open>update: {}\<close>).
\<close>

definition upsertIdentityEmail :: "bool \<Rightarrow> nat \<Rightarrow> string \<Rightarrow> string \<Rightarrow> state \<Rightarrow> state" where
  "upsertIdentityEmail rebind iid email pid s =
     (case find (\<lambda>r. ie_email r = email \<and> ie_productId r = pid) (identityEmails s) of
        None \<Rightarrow>
          s\<lparr>identityEmails := identityEmails s @
               [\<lparr>ie_identityId = iid, ie_email = email, ie_productId = pid\<rparr>]\<rparr>
      | Some _ \<Rightarrow>
          if rebind
          then s\<lparr>identityEmails :=
                   map (\<lambda>r. if ie_email r = email \<and> ie_productId r = pid
                             then r\<lparr>ie_identityId := iid\<rparr> else r)
                     (identityEmails s)\<rparr>
          else s)"

definition linkEmailToIdentity :: "nat \<Rightarrow> string \<Rightarrow> string \<Rightarrow> state \<Rightarrow> state" where
  "linkEmailToIdentity iid email pid s =
     (let normalizedEmail = toLowerCase email
      in upsertIdentityEmail True iid normalizedEmail pid s)"

section \<open>Cross-app sync dispatcher\<close>

text \<open>
  \<open>syncToApps\<close> of the app-sync service.  The configured apps are \<open>rezume\<close> and
  \<open>aicoach\<close>; the target set keeps the order of first insertion.  A push is an HTTP
  call to the remote app; what is recorded is that the call is attempted, which
  \<open>syncToApp\<close> does only when the admin API key is configured.
\<close>

definition APP_CONFIG :: "string list" where
  "APP_CONFIG = [''rezume'', ''aicoach'']"

definition appsToSync :: "string list \<Rightarrow> string list" where
  "appsToSync pids =
     fold (\<lambda>pid acc. let appKey = toLowerCase pid
                      in if appKey \<in> set APP_CONFIG \<and> appKey \<notin> set acc then acc @ [appKey] else acc)
       pids []"

definition truthy :: "string option \<Rightarrow> bool" where
  "truthy v = (v \<noteq> None \<and> v \<noteq> Some [])"

definition syncToApps :: "string list \<Rightarrow> string \<Rightarrow> string \<Rightarrow> string \<Rightarrow> string \<Rightarrow> state \<Rightarrow> state" where
  "syncToApps pids email tier src reason s =
     (if truthy (adminApiKey s)
      then s\<lparr>syncPushes := syncPushes s @
               map (\<lambda>appKey. \<lparr>sync_app = appKey, sync_email = email, sync_tier = tier,
                               sync_source = src, sync_reason = reason\<rparr>)
                 (appsToSync pids)\<rparr>
      else s)"

definition grantAccessAndSync :: "string \<Rightarrow> string list \<Rightarrow> string option \<Rightarrow> state \<Rightarrow> state" where
  "grantAccessAndSync email pids reason s =
     syncToApps pids email ''pro'' ''bundle''
       (if truthy reason then the reason else ''Bundle access granted via Central Dashboard'') s"


section \<open>Entitlement ledger\<close>

record GrantParams =
  gp_identityId :: nat
  gp_productIds :: "string list"
  gp_source :: string
  gp_sourceApp :: "string option"
  gp_bundleId :: "nat option"
  gp_durationType :: "string option"
  gp_durationValue :: "int option"
  gp_stripeSubscriptionId :: "string option"
  gp_stripePriceId :: "string option"
  gp_amountPaid :: "int option"
  gp_currency :: "string option"

definition hasKey :: "nat \<Rightarrow> string \<Rightarrow> string \<Rightarrow> string \<Rightarrow> Entitlement \<Rightarrow> bool" where
  "hasKey iid pid src app e =
     (identityId e = iid \<and> productId e = pid \<and> source e = src \<and> sourceApp e = app)"

definition grantUpdate :: "GrantParams \<Rightarrow> int option \<Rightarrow> Entitlement \<Rightarrow> Entitlement" where
  "grantUpdate gp exp e =
     e\<lparr>bundleId := orKeep (gp_bundleId gp) (bundleId e),
       expiresAt := exp,
       stripeSubscriptionId := orKeep (gp_stripeSubscriptionId gp) (stripeSubscriptionId e),
       stripePriceId := orKeep (gp_stripePriceId gp) (stripePriceId e),
       amountPaid := orKeep (gp_amountPaid gp) (amountPaid e),
       currency := orKeep (gp_currency gp) (currency e),
       revokedAt := None,
       revokedReason := None\<rparr>"

definition grantCreate :: "int \<Rightarrow> GrantParams \<Rightarrow> string \<Rightarrow> int option \<Rightarrow> string \<Rightarrow> nat \<Rightarrow> Entitlement" where
  "grantCreate now gp app exp pid n =
     \<lparr>ent_id = n, identityId = gp_identityId gp, productId = pid, source = gp_source gp,
      sourceApp = app, bundleId = gp_bundleId gp, grantedAt = now, expiresAt = exp,
      revokedAt = None, revokedReason = None,
      stripeSubscriptionId = gp_stripeSubscriptionId gp, stripePriceId = gp_stripePriceId gp,
      amountPaid = gp_amountPaid gp, currency = gp_currency gp\<rparr>"

text \<open>
  One callback of the \<open>productIds.map(async ...)\<close> in \<open>grantAccess\<close>.  All callbacks
  are started by \<open>map\<close> before any query result arrives, so each \<open>findFirst\<close> reads the
  table as it is when \<open>grantAccess\<close> is called (\<open>s0\<close>); the update or the insert that
  follows acts on the current table.
\<close>

definition grantOne :: "int \<Rightarrow> GrantParams \<Rightarrow> string \<Rightarrow> int option \<Rightarrow> state \<Rightarrow> string \<Rightarrow> state \<Rightarrow> state" where
  "grantOne now gp app exp s0 pid s =
     (case find (hasKey (gp_identityId gp) pid (gp_source gp) app) (entitlements s0) of
        Some existingEntitlement \<Rightarrow>
          s\<lparr>entitlements :=
              map (\<lambda>e. if ent_id e = ent_id existingEntitlement then grantUpdate gp exp e else e)
                (entitlements s)\<rparr>
      | None \<Rightarrow>
          s\<lparr>entitlements := entitlements s @ [grantCreate now gp app exp pid (nextEntitlementId s)],
            nextEntitlementId := Suc (nextEntitlementId s)\<rparr>)"

definition storedDate :: "jsdate option \<Rightarrow> int option" where
  "storedDate d = (case d of Some (TimeValue t) \<Rightarrow> Some t | _ \<Rightarrow> None)"

text \<open>
  \<open>grantAccess\<close>, with the defaults of its parameters: the source app \<open>central\<close>
  and the duration type \<open>lifetime\<close>.  The store's client rejects an invalid
  \<open>Date\<close> argument, so with an expiry that is not a valid date every update and
  insert throws and nothing is written.
\<close>

definition grantApp :: "GrantParams \<Rightarrow> string" where
  "grantApp gp = (case gp_sourceApp gp of None \<Rightarrow> ''central'' | Some a \<Rightarrow> a)"

definition grantExpiry :: "Zone \<Rightarrow> int \<Rightarrow> GrantParams \<Rightarrow> jsdate option" where
  "grantExpiry z now gp =
     calculateExpiryDate z now
       (case gp_durationType gp of None \<Rightarrow> ''lifetime'' | Some t \<Rightarrow> t) (gp_durationValue gp)"

definition grantAccess :: "int \<Rightarrow> GrantParams \<Rightarrow> state \<Rightarrow> (error + unit) \<times> state" where
  "grantAccess now gp s =
     (let app = grantApp gp;
          expiry = grantExpiry (hostZone s) now gp
      in if expiry = Some InvalidDate \<and> gp_productIds gp \<noteq> [] then (Inl InvalidDateArgument, s)
         else
           let s1 = fold (grantOne now gp app (storedDate expiry) s) (gp_productIds gp) s
           in (Inr (),
               s1\<lparr>auditLogs := auditLogs s1 @
                    [\<lparr>action = ''grant'', al_identityId = gp_identityId gp,
                      al_productIds = gp_productIds gp, adminEmail = None\<rparr>]\<rparr>))"

subsection \<open>Access query\<close>

record AccessResult =
  hasAccess :: bool
  ar_product :: string
  ar_source :: "string option"
  bundleName :: "string option"
  expires :: "int option"
  ar_grantedAt :: "int option"

definition noAccess :: "string \<Rightarrow> AccessResult" where
  "noAccess pid =
     \<lparr>hasAccess = False, ar_product = pid, ar_source = None, bundleName = None,
      expires = None, ar_grantedAt = None\<rparr>"

text \<open>The filter \<open>revokedAt: null, OR: [{expiresAt: null}, {expiresAt: {gt: now}}]\<close>.\<close>

definition isActiveAt :: "int \<Rightarrow> Entitlement \<Rightarrow> bool" where
  "isActiveAt now e =
     (revokedAt e = None \<and> (case expiresAt e of None \<Rightarrow> True | Some t \<Rightarrow> now < t))"

text \<open>
  The active rows of an identity for a product, most recently granted first
  (\<open>orderBy: {grantedAt: 'desc'}\<close>); rows granted at the same instant keep their
  table order.
\<close>

definition activeEntitlements :: "int \<Rightarrow> nat \<Rightarrow> string \<Rightarrow> state \<Rightarrow> Entitlement list" where
  "activeEntitlements now iid pid s =
     sort_key (\<lambda>e. - grantedAt e)
       (filter (\<lambda>e. identityId e = iid \<and> productId e = pid \<and> isActiveAt now e) (entitlements s))"

definition checkEntitlementAccess :: "int \<Rightarrow> state \<Rightarrow> Entitlement \<Rightarrow> string \<Rightarrow> AccessResult" where
  "checkEntitlementAccess now s e pid =
     (if revokedAt e \<noteq> None then noAccess pid
      else if (case expiresAt e of None \<Rightarrow> False | Some t \<Rightarrow> t < now) then noAccess pid
      else \<lparr>hasAccess = True, ar_product = pid, ar_source = Some (source e),
             bundleName =
               (case bundleId e of None \<Rightarrow> None
                | Some b \<Rightarrow> map_option bundle_name (find (\<lambda>x. bundle_id x = b) (bundles s))),
             expires = expiresAt e, ar_grantedAt = Some (grantedAt e)\<rparr>)"

text \<open>
  \<open>checkAccess\<close>.  Every \<open>new Date()\<close> reads the clock anew: \<open>clock k\<close> is the
  reading number \<open>k\<close> of a call.  The filter of the first query takes reading 0.
  When the binding exists, \<open>checkEntitlementAccess\<close> runs on the first row of the
  result, after the query has returned, and takes reading 1.  Otherwise the filter
  of the second query takes reading 1 and \<open>checkEntitlementAccess\<close> reading 2.
\<close>

definition checkAccess :: "(nat \<Rightarrow> int) \<Rightarrow> string \<Rightarrow> string \<Rightarrow> state \<Rightarrow> AccessResult" where
  "checkAccess clock email pid s =
     (case find (\<lambda>r. ie_email r = toLowerCase email \<and> ie_productId r = pid) (identityEmails s) of
        None \<Rightarrow>
          (case find (\<lambda>i. primaryEmail i = toLowerCase email) (identities s) of
             None \<Rightarrow> noAccess pid
           | Some i \<Rightarrow>
               (case activeEntitlements (clock 1) (identity_id i) pid s of
                  [] \<Rightarrow> noAccess pid
                | e # _ \<Rightarrow> checkEntitlementAccess (clock 2) s e pid))
      | Some r \<Rightarrow>
          (case activeEntitlements (clock 0) (ie_identityId r) pid s of
             [] \<Rightarrow> noAccess pid
           | e # _ \<Rightarrow> checkEntitlementAccess (clock 1) s e pid))"

subsection \<open>Revoking one entitlement\<close>


subsection \<open>External-subscription reporter\<close>

record ReportParams =
  rp_email :: string
  rp_productId :: string
  rp_action :: string
  rp_sourceApp :: string
  rp_stripeSubscriptionId :: "string option"
  rp_stripePriceId :: "string option"
  rp_amountPaid :: "int option"
  rp_currency :: "string option"
  rp_expiresAt :: "jsdate option"
  rp_reason :: "string option"

definition reportGrantUpdate :: "ReportParams \<Rightarrow> Entitlement \<Rightarrow> Entitlement" where
  "reportGrantUpdate rp e =
     e\<lparr>stripeSubscriptionId := orKeep (rp_stripeSubscriptionId rp) (stripeSubscriptionId e),
       stripePriceId := orKeep (rp_stripePriceId rp) (stripePriceId e),
       amountPaid := orKeep (rp_amountPaid rp) (amountPaid e),
       currency := orKeep (rp_currency rp) (currency e),
       expiresAt := orKeep (storedDate (rp_expiresAt rp)) (expiresAt e),
       revokedAt := None,
       revokedReason := None\<rparr>"

definition reportRevokes :: "ReportParams \<Rightarrow> nat \<Rightarrow> Entitlement \<Rightarrow> bool" where
  "reportRevokes rp iid e =
     (hasKey iid (rp_productId rp) ''direct'' (rp_sourceApp rp) e \<and>
      (truthy (rp_stripeSubscriptionId rp) \<longrightarrow>
         stripeSubscriptionId e = rp_stripeSubscriptionId rp))"

definition reportExternalSubscription :: "int \<Rightarrow> ReportParams \<Rightarrow> state \<Rightarrow> (error + string) \<times> state" where
  "reportExternalSubscription now rp s =
     (let normalizedEmail = toLowerCase (rp_email rp);
          (idn, s1) = getOrCreateIdentity normalizedEmail None s;
          s2 = upsertIdentityEmail False (identity_id idn) normalizedEmail (rp_productId rp) s1
      in if rp_action rp = ''grant'' then
           if rp_expiresAt rp = Some InvalidDate then (Inl InvalidDateArgument, s2)
           else
             let s3 =
               (case find (hasKey (identity_id idn) (rp_productId rp) ''direct'' (rp_sourceApp rp))
                       (entitlements s2) of
                  Some existingEntitlement \<Rightarrow>
                    s2\<lparr>entitlements :=
                         map (\<lambda>e. if ent_id e = ent_id existingEntitlement
                                   then reportGrantUpdate rp e else e)
                           (entitlements s2)\<rparr>
                | None \<Rightarrow>
                    s2\<lparr>entitlements := entitlements s2 @
                         [\<lparr>ent_id = nextEntitlementId s2, identityId = identity_id idn,
                           productId = rp_productId rp, source = ''direct'',
                           sourceApp = rp_sourceApp rp, bundleId = None, grantedAt = now,
                           expiresAt = storedDate (rp_expiresAt rp),
                           revokedAt = None, revokedReason = None,
                           stripeSubscriptionId = rp_stripeSubscriptionId rp,
                           stripePriceId = rp_stripePriceId rp,
                           amountPaid = rp_amountPaid rp, currency = rp_currency rp\<rparr>],
                       nextEntitlementId := Suc (nextEntitlementId s2)\<rparr>)
             in (Inr ''granted'',
                 s3\<lparr>auditLogs := auditLogs s3 @
                      [\<lparr>action = ''external_grant'', al_identityId = identity_id idn,
                        al_productIds = [rp_productId rp], adminEmail = None\<rparr>]\<rparr>)
         else
           let s3 = s2\<lparr>entitlements :=
                         map (\<lambda>e. if reportRevokes rp (identity_id idn) e
                                   then e\<lparr>revokedAt := Some now,
                                          revokedReason :=
                                            Some (if truthy (rp_reason rp) then the (rp_reason rp)
                                                  else ''Revoked by '' @ rp_sourceApp rp)\<rparr>
                                   else e)
                           (entitlements s2)\<rparr>
           in (Inr ''revoked'',
               s3\<lparr>auditLogs := auditLogs s3 @
                    [\<lparr>action = ''external_revoke'', al_identityId = identity_id idn,
                      al_productIds = [rp_productId rp], adminEmail = None\<rparr>]\<rparr>))"

section \<open>Claim workflow\<close>

text \<open>
  \<open>createClaimToken\<close>; \<open>tok\<close> is the value of \<open>nanoid(32)\<close>.  The expiry is the
  current date moved forward by 30 days with \<open>setDate\<close>.
\<close>

definition createClaimToken :: "int \<Rightarrow> string \<Rightarrow> nat \<Rightarrow> nat \<Rightarrow> string \<Rightarrow> string option \<Rightarrow> state \<Rightarrow> (error + ClaimToken) \<times> state" where
  "createClaimToken now tok iid bid email sessionId s =
     (case setDate (hostZone s) now (getDate (hostZone s) now + 30) of
        InvalidDate \<Rightarrow> (Inl InvalidDateArgument, s)
      | TimeValue expiry \<Rightarrow>
          (let ct = \<lparr>token = tok, ct_identityId = iid, ct_bundleId = bid, purchaseEmail = email,
                     stripeSessionId = sessionId, ct_expiresAt = expiry, claimed = False,
                     claimedAt = None\<rparr>
           in (Inr ct, s\<lparr>claimTokens := claimTokens s @ [ct]\<rparr>)))"

text \<open>
  The per-product data of an activation request: \<open>productEmails[productId]\<close> is a
  lookup in an association list, the form data an opaque document.
\<close>

record ProductData =
  pd_email :: string
  pd_formData :: "string option"

text \<open>
  \<open>processClaim\<close> begins with one read: the token with its bundle and identity,
  and the three checks on it.
\<close>

definition processClaimRead :: "int \<Rightarrow> string \<Rightarrow> state \<Rightarrow> error + (ClaimToken \<times> Bundle \<times> Identity)" where
  "processClaimRead now tok s =
     (case find (\<lambda>c. token c = tok) (claimTokens s) of
        None \<Rightarrow> Inl InvalidClaimToken
      | Some ct \<Rightarrow>
          (case (find (\<lambda>b. bundle_id b = ct_bundleId ct) (bundles s),
                 find (\<lambda>i. identity_id i = ct_identityId ct) (identities s)) of
             (Some b, Some i) \<Rightarrow>
               if claimed ct then Inl TokenAlreadyClaimed
               else if ct_expiresAt ct < now then Inl TokenExpired
               else Inr (ct, b, i)
           | _ \<Rightarrow> Inl RelationMissing))"

text \<open>
  After the read, \<open>processClaim\<close> is a sequence of awaited writes, none of them in a
  transaction: per bundled product the email binding and the form submission, then
  the grant, the update that marks the token claimed, and the audit entry.  Each
  write is a function from the state to an error or the new state.
\<close>

definition linkWrites :: "nat \<Rightarrow> (string \<times> ProductData) list \<Rightarrow> string \<Rightarrow> (state \<Rightarrow> error + state) list" where
  "linkWrites iid productEmails pid =
     (case map_of productEmails pid of
        None \<Rightarrow> []
      | Some productData \<Rightarrow>
          (if pd_email productData \<noteq> []
           then [\<lambda>s. Inr (linkEmailToIdentity iid (pd_email productData) pid s)] else []) @
          (case pd_formData productData of
             None \<Rightarrow> []
           | Some fd \<Rightarrow>
               [\<lambda>s. Inr (s\<lparr>productSubmissions := productSubmissions s @
                              [\<lparr>ps_identityId = iid, ps_productId = pid, formData = fd\<rparr>]\<rparr>)]))"

definition claimGrantParams :: "Bundle \<Rightarrow> Identity \<Rightarrow> GrantParams" where
  "claimGrantParams b i =
     \<lparr>gp_identityId = identity_id i, gp_productIds = productIds b, gp_source = ''bundle'',
      gp_sourceApp = None, gp_bundleId = Some (bundle_id b),
      gp_durationType = Some (durationType b), gp_durationValue = durationValue b,
      gp_stripeSubscriptionId = None, gp_stripePriceId = None, gp_amountPaid = None,
      gp_currency = None\<rparr>"

definition grantWrite :: "int \<Rightarrow> Bundle \<Rightarrow> Identity \<Rightarrow> state \<Rightarrow> error + state" where
  "grantWrite now b i s =
     (case grantAccess now (claimGrantParams b i) s of
        (Inl e, _) \<Rightarrow> Inl e
      | (Inr _, s') \<Rightarrow> Inr s')"

definition markClaimed :: "int \<Rightarrow> string \<Rightarrow> state \<Rightarrow> error + state" where
  "markClaimed now tok s =
     Inr (s\<lparr>claimTokens :=
              map (\<lambda>c. if token c = tok then c\<lparr>claimed := True, claimedAt := Some now\<rparr> else c)
                (claimTokens s)\<rparr>)"

definition claimAudit :: "Bundle \<Rightarrow> Identity \<Rightarrow> state \<Rightarrow> error + state" where
  "claimAudit b i s =
     Inr (s\<lparr>auditLogs := auditLogs s @
              [\<lparr>action = ''claim'', al_identityId = identity_id i,
                al_productIds = productIds b, adminEmail = None\<rparr>]\<rparr>)"

definition claimWrites :: "int \<Rightarrow> string \<Rightarrow> (string \<times> ProductData) list \<Rightarrow> Bundle \<Rightarrow> Identity \<Rightarrow> (state \<Rightarrow> error + state) list" where
  "claimWrites now tok productEmails b i =
     concat (map (linkWrites (identity_id i) productEmails) (productIds b)) @
     [grantWrite now b i, markClaimed now tok, claimAudit b i]"

text \<open>
  Running the writes in order.  \<open>failAt = Some k\<close> makes the store fail at the
  \<open>k\<close>-th write (counted from 0): that write throws and the writes before it stay.
  \<open>failAt = None\<close> is a store that does not fail.
\<close>

fun runWrites :: "nat option \<Rightarrow> (state \<Rightarrow> error + state) list \<Rightarrow> state \<Rightarrow> error option \<times> state" where
  "runWrites failAt [] s = (None, s)"
| "runWrites failAt (w # ws) s =
     (if failAt = Some 0 then (Some PersistenceFailure, s)
      else case w s of
             Inl e \<Rightarrow> (Some e, s)
           | Inr s' \<Rightarrow> runWrites (map_option (\<lambda>k. k - 1) failAt) ws s')"

definition processClaimWrite :: "nat option \<Rightarrow> int \<Rightarrow> string \<Rightarrow> (string \<times> ProductData) list \<Rightarrow> ClaimToken \<times> Bundle \<times> Identity \<Rightarrow> state \<Rightarrow> (error + Bundle \<times> Identity) \<times> state" where
  "processClaimWrite failAt now tok productEmails snap s =
     (case snap of (ct, b, i) \<Rightarrow>
        (case runWrites failAt (claimWrites now tok productEmails b i) s of
           (Some e, s') \<Rightarrow> (Inl e, s')
         | (None, s') \<Rightarrow> (Inr (b, i), s')))"

definition processClaim :: "nat option \<Rightarrow> int \<Rightarrow> string \<Rightarrow> (string \<times> ProductData) list \<Rightarrow> state \<Rightarrow> (error + Bundle \<times> Identity) \<times> state" where
  "processClaim failAt now tok productEmails s =
     (case processClaimRead now tok s of
        Inl e \<Rightarrow> (Inl e, s)
      | Inr snap \<Rightarrow> processClaimWrite failAt now tok productEmails snap s)"

section \<open>Purchase event processor\<close>

text \<open>
  A checkout session as the handler sees it.  \<open>cs_lineItems\<close> is the answer of the
  gateway to \<open>listLineItems\<close>: \<open>None\<close> when the call throws, else the price id of
  each line item.
\<close>

record CheckoutSession =
  cs_id :: string
  cs_customerEmail :: "string option"
  cs_customerName :: "string option"
  cs_customer :: "string option"
  cs_lineItems :: "string option list option"

record Subscription =
  sub_id :: string
  sub_customer :: string
  sub_priceId :: "string option"
  sub_status :: string

datatype handlerResult =
    NotHandled
  | ClaimTokenCreated string string
  | AccessGranted string "string list"
  | Handled

definition handled :: "handlerResult \<Rightarrow> bool" where
  "handled r = (r \<noteq> NotHandled)"

definition bundleGrantParams :: "Bundle \<Rightarrow> Identity \<Rightarrow> string option \<Rightarrow> GrantParams" where
  "bundleGrantParams b i subscriptionId =
     \<lparr>gp_identityId = identity_id i, gp_productIds = productIds b, gp_source = ''bundle'',
      gp_sourceApp = None, gp_bundleId = Some (bundle_id b),
      gp_durationType = Some (durationType b), gp_durationValue = durationValue b,
      gp_stripeSubscriptionId = subscriptionId, gp_stripePriceId = None, gp_amountPaid = None,
      gp_currency = None\<rparr>"

text \<open>The expiry date that \<open>handleCheckoutCompleted\<close> computes for the email.\<close>

definition emailExpiry :: "Zone \<Rightarrow> int \<Rightarrow> Bundle \<Rightarrow> jsdate option" where
  "emailExpiry z now b =
     (let v = (case durationValue b of None \<Rightarrow> 0 | Some n \<Rightarrow> n)
      in if durationType b = ''lifetime'' then None
         else if durationType b = ''days'' then Some (setDate z now (getDate z now + v))
         else if durationType b = ''months'' then Some (setMonth z now (getMonth z now + v))
         else if durationType b = ''years'' then Some (setFullYear z now (getFullYear z now + v))
         else Some (TimeValue now))"

definition handleCheckoutCompleted :: "int \<Rightarrow> string \<Rightarrow> CheckoutSession \<Rightarrow> state \<Rightarrow> (error + handlerResult) \<times> state" where
  "handleCheckoutCompleted now tok session s =
     (if \<not> truthy (cs_customerEmail session) then (Inl NoCustomerEmail, s)
      else let customerEmail = the (cs_customerEmail session) in
        case cs_lineItems session of
          None \<Rightarrow> (Inl GatewayFailure, s)
        | Some [] \<Rightarrow> (Inl NoLineItems, s)
        | Some (price # _) \<Rightarrow>
            if \<not> truthy price then (Inl NoPriceId, s)
            else
              (case find (\<lambda>b. bundle_stripePriceId b = the price) (bundles s) of
                 None \<Rightarrow> (Inr NotHandled, s)
               | Some b \<Rightarrow>
                   (let (i, s1) = getOrCreateIdentity customerEmail
                                    (if truthy (cs_customer session) then cs_customer session else None) s;
                        productsWithForms =
                          filter (\<lambda>p. product_id p \<in> set (productIds b) \<and> formSchema p \<noteq> None)
                            (products s1)
                    in if productsWithForms \<noteq> [] then
                         (case createClaimToken now tok (identity_id i) (bundle_id b) customerEmail
                                 (Some (cs_id session)) s1 of
                            (Inl e, s2) \<Rightarrow> (Inl e, s2)
                          | (Inr ct, s2) \<Rightarrow> (Inr (ClaimTokenCreated (token ct) (bundle_name b)), s2))
                       else
                         (let s2 = fold (\<lambda>pid. upsertIdentityEmail False (identity_id i)
                                                 (toLowerCase customerEmail) pid)
                                     (productIds b) s1
                          in case grantAccess now (bundleGrantParams b i None) s2 of
                               (Inl e, s3) \<Rightarrow> (Inl e, s3)
                             | (Inr _, s3) \<Rightarrow>
                                 (Inr (AccessGranted (bundle_name b) (productIds b)),
                                  s3\<lparr>emailsSent := emailsSent s3 @
                                       [\<lparr>mail_to = customerEmail, mail_bundleName = bundle_name b,
                                         mail_productIds = productIds b,
                                         mail_expiresAt = emailExpiry (hostZone s) now b\<rparr>]\<rparr>)))))"

definition revokeRow :: "int \<Rightarrow> string \<Rightarrow> Entitlement \<Rightarrow> Entitlement" where
  "revokeRow now reason e = e\<lparr>revokedAt := Some now, revokedReason := Some reason\<rparr>"

definition handleSubscriptionUpdated :: "int \<Rightarrow> Subscription \<Rightarrow> state \<Rightarrow> (error + handlerResult) \<times> state" where
  "handleSubscriptionUpdated now sub s =
     (case find (\<lambda>i. stripeCustomerId i = Some (sub_customer sub)) (identities s) of
        None \<Rightarrow> (Inr NotHandled, s)
      | Some i \<Rightarrow>
          if \<not> truthy (sub_priceId sub) then (Inr NotHandled, s)
          else
            (case find (\<lambda>b. bundle_stripePriceId b = the (sub_priceId sub)) (bundles s) of
               None \<Rightarrow> (Inr NotHandled, s)
             | Some b \<Rightarrow>
                 if sub_status sub = ''active'' \<or> sub_status sub = ''trialing'' then
                   (case grantAccess now (bundleGrantParams b i (Some (sub_id sub))) s of
                      (Inl e, s1) \<Rightarrow> (Inl e, s1)
                    | (Inr _, s1) \<Rightarrow> (Inr Handled, s1))
                 else if sub_status sub = ''canceled'' \<or> sub_status sub = ''unpaid'' \<or>
                         sub_status sub = ''past_due'' then
                   (Inr Handled,
                    fold (\<lambda>pid st.
                            st\<lparr>entitlements :=
                                 map (\<lambda>e. if identityId e = identity_id i \<and> productId e = pid \<and>
                                              stripeSubscriptionId e = Some (sub_id sub)
                                           then revokeRow now (''Subscription '' @ sub_status sub) e
                                           else e)
                                   (entitlements st)\<rparr>)
                      (productIds b) s)
                 else (Inr Handled, s)))"

definition handleSubscriptionDeleted :: "int \<Rightarrow> Subscription \<Rightarrow> state \<Rightarrow> (error + handlerResult) \<times> state" where
  "handleSubscriptionDeleted now sub s =
     (case find (\<lambda>i. stripeCustomerId i = Some (sub_customer sub)) (identities s) of
        None \<Rightarrow> (Inr NotHandled, s)
      | Some i \<Rightarrow>
          (Inr Handled,
           s\<lparr>entitlements :=
               map (\<lambda>e. if identityId e = identity_id i \<and>
                            stripeSubscriptionId e = Some (sub_id sub)
                         then revokeRow now ''Subscription deleted'' e else e)
                 (entitlements s)\<rparr>))"

text \<open>\<open>logWebhookEvent\<close>: the upsert on the unique key \<open>eventId\<close>.\<close>

definition logWebhookEvent :: "string \<Rightarrow> string \<Rightarrow> string \<Rightarrow> string option \<Rightarrow> state \<Rightarrow> state" where
  "logWebhookEvent eid etype st err s =
     (case find (\<lambda>w. eventId w = eid) (webhookLogs s) of
        None \<Rightarrow>
          s\<lparr>webhookLogs := webhookLogs s @
               [\<lparr>eventId = eid, eventType = etype, status = st, errorMessage = err\<rparr>]\<rparr>
      | Some _ \<Rightarrow>
          s\<lparr>webhookLogs :=
              map (\<lambda>w. if eventId w = eid
                        then w\<lparr>status := st, errorMessage := orKeep err (errorMessage w)\<rparr> else w)
                (webhookLogs s)\<rparr>)"

subsection \<open>The webhook route\<close>

text \<open>
  A gateway event is its id and its typed payload.  A request carries the signature
  header and the outcome of the gateway library's signature verification on it: an
  error message or the event.
\<close>

datatype eventData =
    CheckoutSessionCompleted CheckoutSession
  | SubscriptionCreated Subscription
  | SubscriptionUpdated Subscription
  | SubscriptionDeleted Subscription
  | OtherEvent string

fun typeOf :: "eventData \<Rightarrow> string" where
  "typeOf (CheckoutSessionCompleted _) = ''checkout.session.completed''"
| "typeOf (SubscriptionCreated _) = ''customer.subscription.created''"
| "typeOf (SubscriptionUpdated _) = ''customer.subscription.updated''"
| "typeOf (SubscriptionDeleted _) = ''customer.subscription.deleted''"
| "typeOf (OtherEvent t) = t"

record StripeEvent =
  event_id :: string
  event_data :: eventData

record WebhookRequest =
  signature :: "string option"
  verified :: "string + StripeEvent"

datatype response =
    BadRequest string
  | Received handlerResult
  | ServerError string

fun handleEvent :: "int \<Rightarrow> string \<Rightarrow> eventData \<Rightarrow> state \<Rightarrow> (error + handlerResult) \<times> state" where
  "handleEvent now tok (CheckoutSessionCompleted session) s = handleCheckoutCompleted now tok session s"
| "handleEvent now tok (SubscriptionCreated sub) s = handleSubscriptionUpdated now sub s"
| "handleEvent now tok (SubscriptionUpdated sub) s = handleSubscriptionUpdated now sub s"
| "handleEvent now tok (SubscriptionDeleted sub) s = handleSubscriptionDeleted now sub s"
| "handleEvent now tok (OtherEvent t) s = (Inr NotHandled, s)"

definition POST :: "int \<Rightarrow> string \<Rightarrow> WebhookRequest \<Rightarrow> state \<Rightarrow> response \<times> state" where
  "POST now tok request s =
     (if signature request = None then (BadRequest ''Missing stripe-signature header'', s)
      else case verified request of
             Inl msg \<Rightarrow> (BadRequest (''Webhook Error: '' @ msg), s)
           | Inr event \<Rightarrow>
               (case handleEvent now tok (event_data event) s of
                  (Inl e, s1) \<Rightarrow>
                    (ServerError (''Processing Error: '' @ message e),
                     logWebhookEvent (event_id event) (typeOf (event_data event)) ''failed''
                       (Some (message e)) s1)
                | (Inr result, s1) \<Rightarrow>
                    (Received result,
                     logWebhookEvent (event_id event) (typeOf (event_data event))
                       (if handled result then ''success'' else ''ignored'') None s1)))"

section \<open>Vocabulary of the specification\<close>

text \<open>
  The identity that an email resolves to for a product, in the words of the
  specification: the direct (email, product) binding, else the primary email.
\<close>

definition resolveIdentity :: "string \<Rightarrow> string \<Rightarrow> state \<Rightarrow> nat option" where
  "resolveIdentity email pid s =
     (case find (\<lambda>r. ie_email r = toLowerCase email \<and> ie_productId r = pid) (identityEmails s) of
        Some r \<Rightarrow> Some (ie_identityId r)
      | None \<Rightarrow> map_option identity_id (find (\<lambda>i. primaryEmail i = toLowerCase email) (identities s)))"

text \<open>
  The number of the clock reading that the filter of the query takes whose rows
  \<open>checkAccess\<close> uses: the first query when the binding exists, else the second.
  The expiry check on the chosen row takes the reading after it.
\<close>

definition filterRead :: "string \<Rightarrow> string \<Rightarrow> state \<Rightarrow> nat" where
  "filterRead email pid s =
     (case find (\<lambda>r. ie_email r = toLowerCase email \<and> ie_productId r = pid) (identityEmails s) of
        None \<Rightarrow> 1
      | Some r \<Rightarrow> 0)"

text \<open>The entitlement rows of an identity for a product.\<close>

definition rowsOf :: "nat \<Rightarrow> string \<Rightarrow> state \<Rightarrow> Entitlement list" where
  "rowsOf iid pid s = filter (\<lambda>e. identityId e = iid \<and> productId e = pid) (entitlements s)"

text \<open>
  Every email value of the identity and binding tables of \<open>s'\<close> is lower-case or
  was already a value of the same column in \<open>s\<close>: what an operation from \<open>s\<close> to
  \<open>s'\<close> wrote is lower-case.
\<close>

definition writtenLower :: "state \<Rightarrow> state \<Rightarrow> bool" where
  "writtenLower s s' =
     ((\<forall>i \<in> set (identities s').
         primaryEmail i \<in> primaryEmail ` set (identities s) \<or>
         toLowerCase (primaryEmail i) = primaryEmail i) \<and>
      (\<forall>r \<in> set (identityEmails s').
         ie_email r \<in> ie_email ` set (identityEmails s) \<or>
         toLowerCase (ie_email r) = ie_email r))"

text \<open>The key of an entitlement row, and the invariant that no two rows share it.\<close>

definition entKey :: "Entitlement \<Rightarrow> nat \<times> string \<times> string \<times> string" where
  "entKey e = (identityId e, productId e, source e, sourceApp e)"

definition uniqueKeys :: "state \<Rightarrow> bool" where
  "uniqueKeys s = distinct (map entKey (entitlements s))"

text \<open>
  The rows of \<open>s\<close> that satisfy \<open>P\<close> are still in \<open>s'\<close>, at the same position and
  with every column as it was.
\<close>

definition unchangedWhere :: "(Entitlement \<Rightarrow> bool) \<Rightarrow> state \<Rightarrow> state \<Rightarrow> bool" where
  "unchangedWhere P s s' =
     (length (entitlements s) \<le> length (entitlements s') \<and>
      (\<forall>(e, e') \<in> set (zip (entitlements s) (entitlements s')). P e \<longrightarrow> e' = e))"

subsection \<open>Example data\<close>

text \<open>
  The scenario of the specification: the bundle ``Pro Suite'' of two products sold
  for six months under the price \<open>price_1\<close>, in a store with no rows yet.  The two
  products are the ones with a remote app.
\<close>

definition emptyState :: state where
  "emptyState =
     \<lparr>identities = [], identityEmails = [], entitlements = [], bundles = [], products = [],
      claimTokens = [], productSubmissions = [], auditLogs = [], webhookLogs = [],
      syncPushes = [], emailsSent = [], nextIdentityId = 0, nextEntitlementId = 0,
      adminApiKey = Some ''secret'', hostZone = utcZone\<rparr>"

definition proSuite :: Bundle where
  "proSuite =
     \<lparr>bundle_id = 1, bundle_name = ''Pro Suite'', bundle_stripePriceId = ''price_1'',
      productIds = [''rezume'', ''aicoach''], durationType = ''months'',
      durationValue = Some 6\<rparr>"

definition shopState :: state where
  "shopState =
     emptyState\<lparr>bundles := [proSuite],
                products := [\<lparr>product_id = ''rezume'', formSchema = None\<rparr>,
                             \<lparr>product_id = ''aicoach'', formSchema = None\<rparr>]\<rparr>"

definition buyerSession :: CheckoutSession where
  "buyerSession =
     \<lparr>cs_id = ''cs_1'', cs_customerEmail = Some ''buyer@example.com'',
      cs_customerName = None, cs_customer = Some ''cus_1'',
      cs_lineItems = Some [Some ''price_1'']\<rparr>"

text \<open>
  An identity with three rows for one product: an early perpetual bundle row, a
  later direct row that expires at 500, and a revoked promo row.
\<close>

definition row :: "nat \<Rightarrow> string \<Rightarrow> string \<Rightarrow> int \<Rightarrow> int option \<Rightarrow> int option \<Rightarrow> Entitlement" where
  "row n src app granted exp revoked =
     \<lparr>ent_id = n, identityId = 0, productId = ''rezume'', source = src, sourceApp = app,
      bundleId = None, grantedAt = granted, expiresAt = exp, revokedAt = revoked,
      revokedReason = None, stripeSubscriptionId = None, stripePriceId = None,
      amountPaid = None, currency = None\<rparr>"

definition ledgerState :: state where
  "ledgerState =
     emptyState\<lparr>identities := [\<lparr>identity_id = 0, primaryEmail = ''ann@example.com'',
                                 stripeCustomerId = None\<rparr>],
                identityEmails := [\<lparr>ie_identityId = 0, ie_email = ''ann@example.com'',
                                     ie_productId = ''rezume''\<rparr>],
                entitlements := [row 0 ''bundle'' ''central'' 10 None None,
                                 row 1 ''direct'' ''rezume'' 20 (Some 500) None,
                                 row 2 ''promo'' ''central'' 30 None (Some 40)],
                nextIdentityId := 1, nextEntitlementId := 3\<rparr>"

text \<open>The app \<open>rezume\<close> reports that the direct subscription of Ann ended.\<close>

definition annRevokeReport :: ReportParams where
  "annRevokeReport =
     \<lparr>rp_email = ''Ann@Example.com'', rp_productId = ''rezume'', rp_action = ''revoke'',
      rp_sourceApp = ''rezume'', rp_stripeSubscriptionId = None, rp_stripePriceId = None,
      rp_amountPaid = None, rp_currency = None, rp_expiresAt = None, rp_reason = None\<rparr>"

text \<open>
  The app \<open>rezume\<close> reports a renewed direct subscription of Ann, and the app
  \<open>aicoach\<close> reports a subscription of hers to the same product.
\<close>

definition annGrantReport :: ReportParams where
  "annGrantReport =
     \<lparr>rp_email = ''Ann@Example.com'', rp_productId = ''rezume'', rp_action = ''grant'',
      rp_sourceApp = ''rezume'', rp_stripeSubscriptionId = Some ''sub_9'',
      rp_stripePriceId = None, rp_amountPaid = None, rp_currency = None,
      rp_expiresAt = Some (TimeValue 900), rp_reason = None\<rparr>"

definition coachGrantReport :: ReportParams where
  "coachGrantReport =
     \<lparr>rp_email = ''Ann@Example.com'', rp_productId = ''rezume'', rp_action = ''grant'',
      rp_sourceApp = ''aicoach'', rp_stripeSubscriptionId = None,
      rp_stripePriceId = None, rp_amountPaid = None, rp_currency = None,
      rp_expiresAt = None, rp_reason = None\<rparr>"

text \<open>A promotional grant of 30 days of \<open>rezume\<close> to identity 0.\<close>

definition promoGrant :: GrantParams where
  "promoGrant =
     \<lparr>gp_identityId = 0, gp_productIds = [''rezume''], gp_source = ''promo'',
      gp_sourceApp = None, gp_bundleId = None, gp_durationType = Some ''days'',
      gp_durationValue = Some 30, gp_stripeSubscriptionId = None, gp_stripePriceId = None,
      gp_amountPaid = None, gp_currency = None\<rparr>"

text \<open>
  Two manual lifetime grants of \<open>aicoach\<close> to identity 0, as the admin grant route
  passes them on: one names the product once, the other names it twice.
\<close>

definition coachGrant :: GrantParams where
  "coachGrant =
     \<lparr>gp_identityId = 0, gp_productIds = [''aicoach''], gp_source = ''manual'',
      gp_sourceApp = None, gp_bundleId = None, gp_durationType = None,
      gp_durationValue = None, gp_stripeSubscriptionId = None, gp_stripePriceId = None,
      gp_amountPaid = None, gp_currency = None\<rparr>"

definition repeatGrant :: GrantParams where
  "repeatGrant = coachGrant\<lparr>gp_productIds := [''aicoach'', ''aicoach'']\<rparr>"

text \<open>
  The claimed flag of a token, and a bundle grant being in place: every product of
  the bundle has an unrevoked bundle row of the identity.
\<close>

definition claimedFlag :: "string \<Rightarrow> state \<Rightarrow> bool option" where
  "claimedFlag tok s = map_option claimed (find (\<lambda>c. token c = tok) (claimTokens s))"

definition bundleGranted :: "Identity \<Rightarrow> Bundle \<Rightarrow> state \<Rightarrow> bool" where
  "bundleGranted i b s =
     (\<forall>p \<in> set (productIds b).
        \<exists>r \<in> set (entitlements s).
          hasKey (identity_id i) p ''bundle'' ''central'' r \<and> revokedAt r = None)"

text \<open>The writes of the per-product loop: email bindings and form submissions.\<close>

definition isLinkWrite :: "nat \<Rightarrow> (state \<Rightarrow> error + state) \<Rightarrow> bool" where
  "isLinkWrite iid w =
     ((\<exists>e p. w = (\<lambda>s. Inr (linkEmailToIdentity iid e p s))) \<or>
      (\<exists>p fd. w = (\<lambda>s. Inr (s\<lparr>productSubmissions := productSubmissions s @
                                 [\<lparr>ps_identityId = iid, ps_productId = p, formData = fd\<rparr>]\<rparr>))))"

text \<open>The binding of an email for a product to an identity.\<close>

definition boundTo :: "nat \<Rightarrow> string \<Rightarrow> string \<Rightarrow> state \<Rightarrow> bool" where
  "boundTo iid e p s =
     ((\<exists>r \<in> set (identityEmails s). ie_email r = e \<and> ie_productId r = p) \<and>
      (\<forall>r \<in> set (identityEmails s). ie_email r = e \<and> ie_productId r = p \<longrightarrow> ie_identityId r = iid))"

text \<open>The form submissions that an activation stores: one per bundled product for
  which the request carries form data, in the order of the bundle's products.\<close>

definition submissionsOf :: "nat \<Rightarrow> (string \<times> ProductData) list \<Rightarrow> string list \<Rightarrow> ProductSubmission list" where
  "submissionsOf iid pe ps =
     concat (map (\<lambda>p. case map_of pe p of
                         None \<Rightarrow> []
                       | Some pd \<Rightarrow>
                           (case pd_formData pd of
                              None \<Rightarrow> []
                            | Some fd \<Rightarrow> [\<lparr>ps_identityId = iid, ps_productId = p, formData = fd\<rparr>]))
               ps)"

text \<open>
  A buyer holds the unclaimed token \<open>tok_1\<close> for ``Pro Suite'' and activates it with
  one email per product and a form for the second product.  The writes of the
  activation are then: two email bindings, one form submission, the grant, the
  update of the token, the audit entry.
\<close>

definition buyer :: Identity where
  "buyer = \<lparr>identity_id = 0, primaryEmail = ''buyer@example.com'', stripeCustomerId = Some ''cus_1''\<rparr>"

definition buyerToken :: ClaimToken where
  "buyerToken =
     \<lparr>token = ''tok_1'', ct_identityId = 0, ct_bundleId = 1,
      purchaseEmail = ''buyer@example.com'', stripeSessionId = Some ''cs_1'',
      ct_expiresAt = utc 2025 1 14, claimed = False, claimedAt = None\<rparr>"

definition claimState :: state where
  "claimState =
     shopState\<lparr>identities := [buyer], claimTokens := [buyerToken], nextIdentityId := 1\<rparr>"

definition claimData :: "(string \<times> ProductData) list" where
  "claimData =
     [(''rezume'', \<lparr>pd_email = ''Buyer@Work.com'', pd_formData = None\<rparr>),
      (''aicoach'', \<lparr>pd_email = ''buyer@example.com'', pd_formData = Some ''{}''\<rparr>)]"

section \<open>Properties of the duration arithmetic\<close>












section \<open>Properties of the access query and of email normalisation\<close>

lemma lowerChar_idem: "lowerChar (lowerChar c) = lowerChar c"
  by (simp add: lowerChar_def Let_def)

lemma toLowerCase_idem: "toLowerCase (toLowerCase e) = toLowerCase e"
  by (simp add: toLowerCase_def lowerChar_idem)

lemma checkAccess_resolve:
  "checkAccess clock email pid s =
     (case resolveIdentity email pid s of
        None \<Rightarrow> noAccess pid
      | Some i \<Rightarrow>
         (case activeEntitlements (clock (filterRead email pid s)) i pid s of
            [] \<Rightarrow> noAccess pid
          | e # _ \<Rightarrow> checkEntitlementAccess (clock (Suc (filterRead email pid s))) s e pid))"
  by (simp add: checkAccess_def resolveIdentity_def filterRead_def numeral_2_eq_2
      split: option.splits list.splits)

lemma sort_key_head:
  assumes "sort_key f xs = y # ys"
  shows "y \<in> set xs \<and> (\<forall>x \<in> set xs. f y \<le> f x)"
proof -
  have "sorted (map f (sort_key f xs))" by (rule sorted_sort_key)
  then have "\<forall>x \<in> set (y # ys). f y \<le> f x" using assms by auto
  moreover have "set (y # ys) = set xs" using assms set_sort [of f xs] by simp
  ultimately show ?thesis by auto
qed

lemma activeEntitlements_set:
  "set (activeEntitlements now i pid s) = {e \<in> set (rowsOf i pid s). isActiveAt now e}"
  by (auto simp: activeEntitlements_def rowsOf_def)

lemma checkEntitlementAccess_active:
  "isActiveAt now e \<Longrightarrow>
   checkEntitlementAccess later s e pid =
     (if \<exists>t. expiresAt e = Some t \<and> t < later then noAccess pid
      else \<lparr>hasAccess = True, ar_product = pid, ar_source = Some (source e),
            bundleName = (case bundleId e of None \<Rightarrow> None
                          | Some b \<Rightarrow> map_option bundle_name (find (\<lambda>x. bundle_id x = b) (bundles s))),
            expires = expiresAt e, ar_grantedAt = Some (grantedAt e)\<rparr>)"
  by (auto simp: checkEntitlementAccess_def isActiveAt_def split: option.splits)

lemma checkAccess_inactive:
  assumes "resolveIdentity email pid s = Some i"
    and "\<forall>e \<in> set (rowsOf i pid s). \<not> isActiveAt (clock (filterRead email pid s)) e"
  shows "checkAccess clock email pid s = noAccess pid"
proof -
  have "set (activeEntitlements (clock (filterRead email pid s)) i pid s) = {}"
    using assms(2) by (simp add: activeEntitlements_set)
  then have "activeEntitlements (clock (filterRead email pid s)) i pid s = []" by simp
  then show ?thesis using assms(1) by (simp add: checkAccess_resolve)
qed

lemma checkAccess_active:
  assumes "resolveIdentity email pid s = Some i"
    and "now = clock (filterRead email pid s)"
    and "later = clock (Suc (filterRead email pid s))"
    and "\<exists>e \<in> set (rowsOf i pid s). isActiveAt now e"
  shows "\<exists>e \<in> set (rowsOf i pid s). isActiveAt now e \<and>
           (\<forall>e' \<in> set (rowsOf i pid s). isActiveAt now e' \<longrightarrow> grantedAt e' \<le> grantedAt e) \<and>
           checkAccess clock email pid s =
             (if \<exists>t. expiresAt e = Some t \<and> t < later then noAccess pid
              else \<lparr>hasAccess = True, ar_product = pid, ar_source = Some (source e),
                    bundleName = (case bundleId e of None \<Rightarrow> None
                                  | Some b \<Rightarrow> map_option bundle_name (find (\<lambda>x. bundle_id x = b) (bundles s))),
                    expires = expiresAt e, ar_grantedAt = Some (grantedAt e)\<rparr>)"
proof -
  have "set (activeEntitlements now i pid s) \<noteq> {}"
    using assms(4) by (auto simp: activeEntitlements_set)
  then obtain e es where es: "activeEntitlements now i pid s = e # es"
    by (cases "activeEntitlements now i pid s") auto
  then have "e \<in> set (activeEntitlements now i pid s)" by simp
  then have act: "e \<in> set (rowsOf i pid s)" "isActiveAt now e"
    by (auto simp: activeEntitlements_set)
  have "\<forall>x \<in> set (filter (\<lambda>e. identityId e = i \<and> productId e = pid \<and> isActiveAt now e) (entitlements s)).
          - grantedAt e \<le> - grantedAt x"
    using sort_key_head [OF es [unfolded activeEntitlements_def]] by blast
  then have mx: "\<forall>e' \<in> set (rowsOf i pid s). isActiveAt now e' \<longrightarrow> grantedAt e' \<le> grantedAt e"
    by (auto simp: rowsOf_def)
  have "checkAccess clock email pid s = checkEntitlementAccess later s e pid"
    using assms(1) es by (simp add: checkAccess_resolve assms(2,3) [symmetric])
  then have "checkAccess clock email pid s =
             (if \<exists>t. expiresAt e = Some t \<and> t < later then noAccess pid
              else \<lparr>hasAccess = True, ar_product = pid, ar_source = Some (source e),
                    bundleName = (case bundleId e of None \<Rightarrow> None
                                  | Some b \<Rightarrow> map_option bundle_name (find (\<lambda>x. bundle_id x = b) (bundles s))),
                    expires = expiresAt e, ar_grantedAt = Some (grantedAt e)\<rparr>)"
    using checkEntitlementAccess_active [OF act(2)] by simp
  then show ?thesis using act mx by blast
qed

lemma isActiveAt_not_expired:
  "isActiveAt later e \<Longrightarrow> \<not> (\<exists>t. expiresAt e = Some t \<and> t < later)"
  by (auto simp: isActiveAt_def)

text \<open>
  Claim C8, as the code has it.  \<open>checkAccess\<close> resolves the identity by the direct
  binding, else by the primary email, and always returns an answer.  Let \<open>now\<close> be
  the clock reading of the query filter and \<open>later\<close> the reading of the expiry
  check that follows.  Without an identity, or when every row of the identity for
  the product is revoked, or every row is expired at \<open>now\<close>, or none is active at
  \<open>now\<close>, the answer is \<open>hasAccess = False\<close>.  Otherwise the answer is taken from a
  row that is active at \<open>now\<close> and that no other row active at \<open>now\<close> was
  granted after: it carries the source, bundle name and expiry of that row, unless
  the expiry of that row lies before \<open>later\<close>, and then the answer is
  \<open>hasAccess = False\<close> whatever the other rows are.  When every row active at
  \<open>now\<close> is still active at \<open>later\<close>, the answer carries the data of that row.
\<close>

theorem checkAccess_spec:
  assumes "now = clock (filterRead email pid s)"
    and "later = clock (Suc (filterRead email pid s))"
  shows
  "(resolveIdentity email pid s = None \<longrightarrow> checkAccess clock email pid s = noAccess pid) \<and>
   (\<forall>i. resolveIdentity email pid s = Some i \<longrightarrow>
      ((\<forall>e \<in> set (rowsOf i pid s). revokedAt e \<noteq> None) \<longrightarrow>
         checkAccess clock email pid s = noAccess pid) \<and>
      ((\<forall>e \<in> set (rowsOf i pid s). \<exists>t. expiresAt e = Some t \<and> t \<le> now) \<longrightarrow>
         checkAccess clock email pid s = noAccess pid) \<and>
      ((\<forall>e \<in> set (rowsOf i pid s). \<not> isActiveAt now e) \<longrightarrow>
         checkAccess clock email pid s = noAccess pid) \<and>
      ((\<exists>e \<in> set (rowsOf i pid s). isActiveAt now e) \<longrightarrow>
         (\<exists>e \<in> set (rowsOf i pid s). isActiveAt now e \<and>
            (\<forall>e' \<in> set (rowsOf i pid s). isActiveAt now e' \<longrightarrow> grantedAt e' \<le> grantedAt e) \<and>
            checkAccess clock email pid s =
              (if \<exists>t. expiresAt e = Some t \<and> t < later then noAccess pid
               else \<lparr>hasAccess = True, ar_product = pid, ar_source = Some (source e),
                     bundleName = (case bundleId e of None \<Rightarrow> None
                                   | Some b \<Rightarrow> map_option bundle_name (find (\<lambda>x. bundle_id x = b) (bundles s))),
                     expires = expiresAt e, ar_grantedAt = Some (grantedAt e)\<rparr>) \<and>
            ((\<forall>e' \<in> set (rowsOf i pid s). isActiveAt now e' \<longrightarrow> isActiveAt later e') \<longrightarrow>
               checkAccess clock email pid s =
                 \<lparr>hasAccess = True, ar_product = pid, ar_source = Some (source e),
                  bundleName = (case bundleId e of None \<Rightarrow> None
                                | Some b \<Rightarrow> map_option bundle_name (find (\<lambda>x. bundle_id x = b) (bundles s))),
                  expires = expiresAt e, ar_grantedAt = Some (grantedAt e)\<rparr>))))"
proof (intro conjI allI impI)
  assume "resolveIdentity email pid s = None"
  then show "checkAccess clock email pid s = noAccess pid" by (simp add: checkAccess_resolve)
next
  fix i
  assume r: "resolveIdentity email pid s = Some i"
  {
    assume "\<forall>e \<in> set (rowsOf i pid s). revokedAt e \<noteq> None"
    then have "\<forall>e \<in> set (rowsOf i pid s). \<not> isActiveAt (clock (filterRead email pid s)) e"
      by (simp add: isActiveAt_def)
    then show "checkAccess clock email pid s = noAccess pid" by (rule checkAccess_inactive [OF r])
  }
  {
    assume "\<forall>e \<in> set (rowsOf i pid s). \<exists>t. expiresAt e = Some t \<and> t \<le> now"
    then have "\<forall>e \<in> set (rowsOf i pid s). \<not> isActiveAt (clock (filterRead email pid s)) e"
      unfolding assms(1) by (fastforce simp: isActiveAt_def)
    then show "checkAccess clock email pid s = noAccess pid" by (rule checkAccess_inactive [OF r])
  }
  {
    assume "\<forall>e \<in> set (rowsOf i pid s). \<not> isActiveAt now e"
    then have "\<forall>e \<in> set (rowsOf i pid s). \<not> isActiveAt (clock (filterRead email pid s)) e"
      unfolding assms(1) .
    then show "checkAccess clock email pid s = noAccess pid" by (rule checkAccess_inactive [OF r])
  }
  {
    assume "\<exists>e \<in> set (rowsOf i pid s). isActiveAt now e"
    from checkAccess_active [OF r assms this]
    obtain e where e: "e \<in> set (rowsOf i pid s)" "isActiveAt now e"
      "\<forall>e' \<in> set (rowsOf i pid s). isActiveAt now e' \<longrightarrow> grantedAt e' \<le> grantedAt e"
      "checkAccess clock email pid s =
              (if \<exists>t. expiresAt e = Some t \<and> t < later then noAccess pid
               else \<lparr>hasAccess = True, ar_product = pid, ar_source = Some (source e),
                     bundleName = (case bundleId e of None \<Rightarrow> None
                                   | Some b \<Rightarrow> map_option bundle_name (find (\<lambda>x. bundle_id x = b) (bundles s))),
                     expires = expiresAt e, ar_grantedAt = Some (grantedAt e)\<rparr>)"
      by blast
    have "(\<forall>e' \<in> set (rowsOf i pid s). isActiveAt now e' \<longrightarrow> isActiveAt later e') \<longrightarrow>
               checkAccess clock email pid s =
                 \<lparr>hasAccess = True, ar_product = pid, ar_source = Some (source e),
                  bundleName = (case bundleId e of None \<Rightarrow> None
                                | Some b \<Rightarrow> map_option bundle_name (find (\<lambda>x. bundle_id x = b) (bundles s))),
                  expires = expiresAt e, ar_grantedAt = Some (grantedAt e)\<rparr>"
    proof
      assume "\<forall>e' \<in> set (rowsOf i pid s). isActiveAt now e' \<longrightarrow> isActiveAt later e'"
      then have "isActiveAt later e" using e(1,2) by blast
      then have "\<not> (\<exists>t. expiresAt e = Some t \<and> t < later)" by (rule isActiveAt_not_expired)
      then show "checkAccess clock email pid s =
                 \<lparr>hasAccess = True, ar_product = pid, ar_source = Some (source e),
                  bundleName = (case bundleId e of None \<Rightarrow> None
                                | Some b \<Rightarrow> map_option bundle_name (find (\<lambda>x. bundle_id x = b) (bundles s))),
                  expires = expiresAt e, ar_grantedAt = Some (grantedAt e)\<rparr>"
        unfolding e(4) by (rule if_not_P)
    qed
    with e show "\<exists>e \<in> set (rowsOf i pid s). isActiveAt now e \<and>
            (\<forall>e' \<in> set (rowsOf i pid s). isActiveAt now e' \<longrightarrow> grantedAt e' \<le> grantedAt e) \<and>
            checkAccess clock email pid s =
              (if \<exists>t. expiresAt e = Some t \<and> t < later then noAccess pid
               else \<lparr>hasAccess = True, ar_product = pid, ar_source = Some (source e),
                     bundleName = (case bundleId e of None \<Rightarrow> None
                                   | Some b \<Rightarrow> map_option bundle_name (find (\<lambda>x. bundle_id x = b) (bundles s))),
                     expires = expiresAt e, ar_grantedAt = Some (grantedAt e)\<rparr>) \<and>
            ((\<forall>e' \<in> set (rowsOf i pid s). isActiveAt now e' \<longrightarrow> isActiveAt later e') \<longrightarrow>
               checkAccess clock email pid s =
                 \<lparr>hasAccess = True, ar_product = pid, ar_source = Some (source e),
                  bundleName = (case bundleId e of None \<Rightarrow> None
                                | Some b \<Rightarrow> map_option bundle_name (find (\<lambda>x. bundle_id x = b) (bundles s))),
                  expires = expiresAt e, ar_grantedAt = Some (grantedAt e)\<rparr>)"
      by blast
  }
qed

text \<open>
  In the example ledger, with the clock read at 100 and then at 101, the binding of
  \<open>ann@example.com\<close> resolves to identity 0, whose direct row (granted at 20) is
  the latest active one at both readings: the answer has its source and its expiry.
\<close>

lemma lower_ann: "toLowerCase ''Ann@Example.com'' = ''ann@example.com''"
  by code_simp

theorem checkAccess_spec_witness:
  "(100::int) = (\<lambda>k. 100 + int k) (filterRead ''Ann@Example.com'' ''rezume'' ledgerState) \<and>
   (101::int) = (\<lambda>k. 100 + int k) (Suc (filterRead ''Ann@Example.com'' ''rezume'' ledgerState)) \<and>
   resolveIdentity ''Ann@Example.com'' ''rezume'' ledgerState = Some 0 \<and>
   (\<exists>e \<in> set (rowsOf 0 ''rezume'' ledgerState). isActiveAt 100 e) \<and>
   map (isActiveAt 100) (rowsOf 0 ''rezume'' ledgerState) = [True, True, False] \<and>
   map (isActiveAt 101) (rowsOf 0 ''rezume'' ledgerState) = [True, True, False] \<and>
   (\<exists>e \<in> set (rowsOf 0 ''rezume'' ledgerState). isActiveAt 100 e \<and>
      (\<forall>e' \<in> set (rowsOf 0 ''rezume'' ledgerState). isActiveAt 100 e' \<longrightarrow> grantedAt e' \<le> grantedAt e) \<and>
      checkAccess (\<lambda>k. 100 + int k) ''Ann@Example.com'' ''rezume'' ledgerState =
        \<lparr>hasAccess = True, ar_product = ''rezume'', ar_source = Some (source e),
         bundleName = (case bundleId e of None \<Rightarrow> None
                       | Some b \<Rightarrow> map_option bundle_name (find (\<lambda>x. bundle_id x = b) (bundles ledgerState))),
         expires = expiresAt e, ar_grantedAt = Some (grantedAt e)\<rparr>) \<and>
   checkAccess (\<lambda>k. 100 + int k) ''Ann@Example.com'' ''rezume'' ledgerState =
     \<lparr>hasAccess = True, ar_product = ''rezume'', ar_source = Some ''direct'',
      bundleName = None, expires = Some 500, ar_grantedAt = Some 20\<rparr>"
proof -
  have f: "filterRead ''Ann@Example.com'' ''rezume'' ledgerState = 0"
    by (simp add: filterRead_def ledgerState_def emptyState_def lower_ann)
  have r: "resolveIdentity ''Ann@Example.com'' ''rezume'' ledgerState = Some 0"
    by (simp add: resolveIdentity_def ledgerState_def emptyState_def lower_ann)
  have a: "\<exists>e \<in> set (rowsOf 0 ''rezume'' ledgerState). isActiveAt 100 e"
    by (simp add: rowsOf_def ledgerState_def emptyState_def row_def isActiveAt_def)
  have k: "\<forall>e \<in> set (rowsOf 0 ''rezume'' ledgerState). isActiveAt 100 e \<longrightarrow> isActiveAt 101 e"
    by (simp add: rowsOf_def ledgerState_def emptyState_def row_def isActiveAt_def)
  have v: "checkAccess (\<lambda>k. 100 + int k) ''Ann@Example.com'' ''rezume'' ledgerState =
     \<lparr>hasAccess = True, ar_product = ''rezume'', ar_source = Some ''direct'',
      bundleName = None, expires = Some 500, ar_grantedAt = Some 20\<rparr>"
    by (simp add: checkAccess_def ledgerState_def emptyState_def lower_ann
        activeEntitlements_def row_def isActiveAt_def checkEntitlementAccess_def)
  have m: "map (isActiveAt 100) (rowsOf 0 ''rezume'' ledgerState) = [True, True, False]"
    "map (isActiveAt 101) (rowsOf 0 ''rezume'' ledgerState) = [True, True, False]"
    by (simp_all add: rowsOf_def ledgerState_def emptyState_def row_def isActiveAt_def)
  have n: "(100::int) = (\<lambda>k. 100 + int k) (filterRead ''Ann@Example.com'' ''rezume'' ledgerState)"
    "(101::int) = (\<lambda>k. 100 + int k) (Suc (filterRead ''Ann@Example.com'' ''rezume'' ledgerState))"
    by (simp_all add: f)
  from checkAccess_spec [OF n] r a k
  have "\<exists>e \<in> set (rowsOf 0 ''rezume'' ledgerState). isActiveAt 100 e \<and>
      (\<forall>e' \<in> set (rowsOf 0 ''rezume'' ledgerState). isActiveAt 100 e' \<longrightarrow> grantedAt e' \<le> grantedAt e) \<and>
      checkAccess (\<lambda>k. 100 + int k) ''Ann@Example.com'' ''rezume'' ledgerState =
        \<lparr>hasAccess = True, ar_product = ''rezume'', ar_source = Some (source e),
         bundleName = (case bundleId e of None \<Rightarrow> None
                       | Some b \<Rightarrow> map_option bundle_name (find (\<lambda>x. bundle_id x = b) (bundles ledgerState))),
         expires = expiresAt e, ar_grantedAt = Some (grantedAt e)\<rparr>"
    by blast
  then show ?thesis using n r a m v by blast
qed

text \<open>
  Claim C8 as stated fails.  In the example ledger the clock is read at 499 by the
  query filter and at 501 by the expiry check.  The perpetual bundle row is active
  at both readings, yet the answer is \<open>hasAccess = False\<close>: the filter keeps the
  direct row, which was granted later and expires at 500, the query puts it first,
  and the expiry check then rejects it.
\<close>

theorem checkAccess_expiry_counterexample:
  "resolveIdentity ''ann@example.com'' ''rezume'' ledgerState = Some 0 \<and>
   row 0 ''bundle'' ''central'' 10 None None \<in> set (rowsOf 0 ''rezume'' ledgerState) \<and>
   isActiveAt 499 (row 0 ''bundle'' ''central'' 10 None None) \<and>
   isActiveAt 501 (row 0 ''bundle'' ''central'' 10 None None) \<and>
   (\<lambda>k. 499 + 2 * int k) (filterRead ''ann@example.com'' ''rezume'' ledgerState) = 499 \<and>
   (\<lambda>k. 499 + 2 * int k) (Suc (filterRead ''ann@example.com'' ''rezume'' ledgerState)) = 501 \<and>
   checkAccess (\<lambda>k. 499 + 2 * int k) ''ann@example.com'' ''rezume'' ledgerState = noAccess ''rezume''"
  by code_simp

lemma writtenLower_trans: "writtenLower s s1 \<Longrightarrow> writtenLower s1 s2 \<Longrightarrow> writtenLower s s2"
  unfolding writtenLower_def by (auto simp: image_iff Bex_def) metis+

lemma getOrCreateIdentity_lower: "writtenLower s (snd (getOrCreateIdentity e c s))"
  by (auto simp: getOrCreateIdentity_def writtenLower_def Let_def toLowerCase_idem image_iff
      split: option.splits)

lemma upsertIdentityEmail_lower:
  "toLowerCase e = e \<Longrightarrow> writtenLower s (upsertIdentityEmail b i e p s)"
  by (auto simp: upsertIdentityEmail_def writtenLower_def image_iff split: option.splits)

lemma linkEmailToIdentity_lower: "writtenLower s (linkEmailToIdentity i e p s)"
  by (simp add: linkEmailToIdentity_def Let_def upsertIdentityEmail_lower toLowerCase_idem)

lemma writtenLower_cong:
  "identities s' = identities s1 \<Longrightarrow> identityEmails s' = identityEmails s1 \<Longrightarrow>
   writtenLower s s1 \<Longrightarrow> writtenLower s s'"
  by (simp add: writtenLower_def)

lemma reportExternalSubscription_tables:
  "identities (snd (reportExternalSubscription now rp s)) =
     identities (snd (getOrCreateIdentity (toLowerCase (rp_email rp)) None s)) \<and>
   identityEmails (snd (reportExternalSubscription now rp s)) =
     identityEmails (upsertIdentityEmail False
        (identity_id (fst (getOrCreateIdentity (toLowerCase (rp_email rp)) None s)))
        (toLowerCase (rp_email rp)) (rp_productId rp)
        (snd (getOrCreateIdentity (toLowerCase (rp_email rp)) None s)))"
  by (simp add: reportExternalSubscription_def Let_def upsertIdentityEmail_def
      split: prod.splits option.splits)

lemma reportExternalSubscription_lower:
  "writtenLower s (snd (reportExternalSubscription now rp s))"
proof -
  let ?e = "toLowerCase (rp_email rp)"
  let ?g = "getOrCreateIdentity ?e None s"
  let ?u = "upsertIdentityEmail False (identity_id (fst ?g)) ?e (rp_productId rp) (snd ?g)"
  have 1: "writtenLower s (snd ?g)" by (rule getOrCreateIdentity_lower)
  have 2: "writtenLower (snd ?g) ?u"
    by (rule upsertIdentityEmail_lower) (rule toLowerCase_idem)
  have 3: "writtenLower s ?u" using 1 2 by (rule writtenLower_trans)
  have "identities ?u = identities (snd ?g)"
    by (simp add: upsertIdentityEmail_def split: option.splits)
  then show ?thesis
    using reportExternalSubscription_tables [of now rp s] 3
    by (auto intro: writtenLower_cong [of _ ?u])
qed

text \<open>
  Claim C10.  The access query, identity creation and email binding give the same
  result for an email and for its lower-case form, and every primary email and
  bound email that \<open>getOrCreateIdentity\<close>, \<open>linkEmailToIdentity\<close> and
  \<open>reportExternalSubscription\<close> write is lower-case.
\<close>

theorem email_normalisation:
  "checkAccess clock (toLowerCase e) p s = checkAccess clock e p s \<and>
   resolveIdentity (toLowerCase e) p s = resolveIdentity e p s \<and>
   getOrCreateIdentity (toLowerCase e) c s = getOrCreateIdentity e c s \<and>
   linkEmailToIdentity i (toLowerCase e) p s = linkEmailToIdentity i e p s \<and>
   writtenLower s (snd (getOrCreateIdentity e c s)) \<and>
   writtenLower s (linkEmailToIdentity i e p s) \<and>
   writtenLower s (snd (reportExternalSubscription now rp s))"
proof (intro conjI)
  show "checkAccess clock (toLowerCase e) p s = checkAccess clock e p s"
    by (simp add: checkAccess_def toLowerCase_idem cong: option.case_cong)
  show "resolveIdentity (toLowerCase e) p s = resolveIdentity e p s"
    by (simp add: resolveIdentity_def toLowerCase_idem cong: option.case_cong)
  show "getOrCreateIdentity (toLowerCase e) c s = getOrCreateIdentity e c s"
    by (simp add: getOrCreateIdentity_def toLowerCase_idem)
  show "linkEmailToIdentity i (toLowerCase e) p s = linkEmailToIdentity i e p s"
    by (simp add: linkEmailToIdentity_def toLowerCase_idem)
  show "writtenLower s (snd (getOrCreateIdentity e c s))"
    by (rule getOrCreateIdentity_lower)
  show "writtenLower s (linkEmailToIdentity i e p s)"
    by (rule linkEmailToIdentity_lower)
  show "writtenLower s (snd (reportExternalSubscription now rp s))"
    by (rule reportExternalSubscription_lower)
qed

text \<open>
  In the empty store the identity created for \<open>Buyer@Example.com\<close> and the binding
  made for it carry \<open>buyer@example.com\<close>.
\<close>

lemma lower_buyer: "toLowerCase ''Buyer@Example.com'' = ''buyer@example.com''"
  by code_simp

theorem email_normalisation_witness:
  "writtenLower emptyState (snd (getOrCreateIdentity ''Buyer@Example.com'' None emptyState)) \<and>
   map primaryEmail (identities (snd (getOrCreateIdentity ''Buyer@Example.com'' None emptyState))) =
     [''buyer@example.com''] \<and>
   writtenLower emptyState (linkEmailToIdentity 0 ''Buyer@Example.com'' ''rezume'' emptyState) \<and>
   map ie_email (identityEmails (linkEmailToIdentity 0 ''Buyer@Example.com'' ''rezume'' emptyState)) =
     [''buyer@example.com'']"
proof -
  have 1: "map primaryEmail (identities (snd (getOrCreateIdentity ''Buyer@Example.com'' None emptyState))) =
     [''buyer@example.com'']"
    by (simp add: getOrCreateIdentity_def emptyState_def lower_buyer Let_def)
  have 2: "map ie_email (identityEmails (linkEmailToIdentity 0 ''Buyer@Example.com'' ''rezume'' emptyState)) =
     [''buyer@example.com'']"
    by (simp add: linkEmailToIdentity_def upsertIdentityEmail_def emptyState_def lower_buyer Let_def)
  show ?thesis
    using email_normalisation [of _ "''Buyer@Example.com''" "''rezume''" emptyState None 0] 1 2
    by blast
qed

section \<open>Properties of revocation and of external reports\<close>

lemma unchangedWhere_map:
  "entitlements s' = map f (entitlements s) \<Longrightarrow> (\<And>e. e \<in> set (entitlements s) \<Longrightarrow> P e \<Longrightarrow> f e = e) \<Longrightarrow>
   unchangedWhere P s s'"
  by (auto simp: unchangedWhere_def zip_map2 zip_same)

lemma zip_map_append: "zip xs (map f xs @ ys) = map (\<lambda>x. (x, f x)) xs"
  by (induction xs) auto

lemma unchangedWhere_append:
  "entitlements s' = map f (entitlements s) @ ys \<Longrightarrow> (\<And>e. e \<in> set (entitlements s) \<Longrightarrow> P e \<Longrightarrow> f e = e) \<Longrightarrow>
   unchangedWhere P s s'"
  by (auto simp: unchangedWhere_def zip_map_append)





lemma getOrCreateIdentity_entitlements:
  "entitlements (snd (getOrCreateIdentity e c s)) = entitlements s \<and>
   nextEntitlementId (snd (getOrCreateIdentity e c s)) = nextEntitlementId s"
  by (simp add: getOrCreateIdentity_def Let_def split: option.splits)

lemma upsertIdentityEmail_entitlements:
  "entitlements (upsertIdentityEmail b i e p s) = entitlements s \<and>
   nextEntitlementId (upsertIdentityEmail b i e p s) = nextEntitlementId s"
  by (simp add: upsertIdentityEmail_def split: option.splits)

lemma find_Some_mem: "find P xs = Some x \<Longrightarrow> x \<in> set xs \<and> P x"
  by (auto simp: find_Some_iff)

lemma distinct_map_eq:
  "distinct (map f xs) \<Longrightarrow> x \<in> set xs \<Longrightarrow> y \<in> set xs \<Longrightarrow> f x = f y \<Longrightarrow> x = y"
  by (auto simp: distinct_map dest: inj_onD)

lemma report_revoke_entitlements:
  "rp_action rp \<noteq> ''grant'' \<Longrightarrow>
   entitlements (snd (reportExternalSubscription now rp s)) =
     map (\<lambda>e. if reportRevokes rp (identity_id (fst (getOrCreateIdentity (rp_email rp) None s))) e
               then e\<lparr>revokedAt := Some now,
                      revokedReason := Some (if truthy (rp_reason rp) then the (rp_reason rp)
                                             else ''Revoked by '' @ rp_sourceApp rp)\<rparr>
               else e)
       (entitlements s)"
  by (simp add: reportExternalSubscription_def Let_def case_prod_beta toLowerCase_idem
      getOrCreateIdentity_entitlements upsertIdentityEmail_entitlements
      getOrCreateIdentity_def [of "toLowerCase (rp_email rp)"]
      getOrCreateIdentity_def [of "rp_email rp"])

lemma report_grant_entitlements:
  "rp_action rp = ''grant'' \<Longrightarrow>
   entitlements (snd (reportExternalSubscription now rp s)) =
     (let iid = identity_id (fst (getOrCreateIdentity (rp_email rp) None s))
      in if rp_expiresAt rp = Some InvalidDate then entitlements s
         else case find (hasKey iid (rp_productId rp) ''direct'' (rp_sourceApp rp)) (entitlements s) of
                Some ex \<Rightarrow> map (\<lambda>e. if ent_id e = ent_id ex then reportGrantUpdate rp e else e) (entitlements s)
              | None \<Rightarrow> entitlements s @
                  [\<lparr>ent_id = nextEntitlementId s, identityId = iid,
                    productId = rp_productId rp, source = ''direct'',
                    sourceApp = rp_sourceApp rp, bundleId = None, grantedAt = now,
                    expiresAt = storedDate (rp_expiresAt rp),
                    revokedAt = None, revokedReason = None,
                    stripeSubscriptionId = rp_stripeSubscriptionId rp,
                    stripePriceId = rp_stripePriceId rp,
                    amountPaid = rp_amountPaid rp, currency = rp_currency rp\<rparr>])"
  by (simp add: reportExternalSubscription_def Let_def case_prod_beta toLowerCase_idem
      getOrCreateIdentity_entitlements upsertIdentityEmail_entitlements
      getOrCreateIdentity_def [of "toLowerCase (rp_email rp)"]
      getOrCreateIdentity_def [of "rp_email rp"]
      split: option.splits)

lemma report_grant_invalid:
  "rp_action rp = ''grant'' \<Longrightarrow> rp_expiresAt rp = Some InvalidDate \<Longrightarrow>
   fst (reportExternalSubscription now rp s) = Inl InvalidDateArgument"
  by (simp add: reportExternalSubscription_def Let_def case_prod_beta)

text \<open>
  Claim C9.  Rows are identified by their primary key \<open>ent_id\<close>.  A report touches
  only rows with the key (identity, product, \<open>direct\<close>, reporting app): every other
  row, of another source, app or product, stays as it is.  A revoke sets
  \<open>revokedAt\<close> on exactly the rows of that key, narrowed to the subscription id
  when one is supplied.  A grant with a valid expiry refreshes the first row of that
  key where one exists: the table is as before except that this row has no
  revocation any more and has taken each of the subscription id, price id, amount,
  currency and expiry that the report supplies, keeping its own value of a column
  that the report leaves out.  Where no row of that key exists the grant creates
  one: the table is as before with one row appended, of that key, granted now, not
  revoked, with the reported columns.  So a grant adds at most one row, only of
  that key, and leaves an unrevoked row of that key.  A grant with an invalid expiry
  fails and leaves the table as it is.
\<close>

theorem reportExternalSubscription_scope:
  assumes "distinct (map ent_id (entitlements s))"
  shows "let iid = identity_id (fst (getOrCreateIdentity (rp_email rp) None s));
             s' = snd (reportExternalSubscription now rp s);
             mine = hasKey iid (rp_productId rp) ''direct'' (rp_sourceApp rp)
         in unchangedWhere (\<lambda>e. \<not> mine e) s s' \<and>
            (rp_action rp \<noteq> ''grant'' \<longrightarrow>
               entitlements s' =
                 map (\<lambda>e. if reportRevokes rp iid e
                           then e\<lparr>revokedAt := Some now,
                                  revokedReason := Some (if truthy (rp_reason rp) then the (rp_reason rp)
                                                         else ''Revoked by '' @ rp_sourceApp rp)\<rparr>
                           else e)
                   (entitlements s)) \<and>
            (rp_action rp = ''grant'' \<and> rp_expiresAt rp \<noteq> Some InvalidDate \<longrightarrow>
               (case find mine (entitlements s) of
                  Some ex \<Rightarrow>
                    entitlements s' =
                      map (\<lambda>e. if ent_id e = ent_id ex
                                then e\<lparr>stripeSubscriptionId := orKeep (rp_stripeSubscriptionId rp) (stripeSubscriptionId e),
                                    stripePriceId := orKeep (rp_stripePriceId rp) (stripePriceId e),
                                    amountPaid := orKeep (rp_amountPaid rp) (amountPaid e),
                                    currency := orKeep (rp_currency rp) (currency e),
                                    expiresAt := orKeep (storedDate (rp_expiresAt rp)) (expiresAt e),
                                    revokedAt := None, revokedReason := None\<rparr>
                                else e)
                        (entitlements s)
                | None \<Rightarrow>
                    entitlements s' = entitlements s @
                      [\<lparr>ent_id = nextEntitlementId s, identityId = iid,
                         productId = rp_productId rp, source = ''direct'',
                         sourceApp = rp_sourceApp rp, bundleId = None, grantedAt = now,
                         expiresAt = storedDate (rp_expiresAt rp),
                         revokedAt = None, revokedReason = None,
                         stripeSubscriptionId = rp_stripeSubscriptionId rp,
                         stripePriceId = rp_stripePriceId rp,
                         amountPaid = rp_amountPaid rp, currency = rp_currency rp\<rparr>]) \<and>
               length (entitlements s') \<le> Suc (length (entitlements s)) \<and>
               (\<forall>e' \<in> set (drop (length (entitlements s)) (entitlements s')). mine e') \<and>
               (\<exists>e' \<in> set (entitlements s'). mine e' \<and> revokedAt e' = None)) \<and>
            (rp_action rp = ''grant'' \<and> rp_expiresAt rp = Some InvalidDate \<longrightarrow>
               fst (reportExternalSubscription now rp s) = Inl InvalidDateArgument \<and>
               entitlements s' = entitlements s)"
proof -
  let ?iid = "identity_id (fst (getOrCreateIdentity (rp_email rp) None s))"
  let ?s' = "snd (reportExternalSubscription now rp s)"
  let ?mine = "hasKey ?iid (rp_productId rp) ''direct'' (rp_sourceApp rp)"
  let ?rev = "\<lambda>e. if reportRevokes rp ?iid e
                   then e\<lparr>revokedAt := Some now,
                          revokedReason := Some (if truthy (rp_reason rp) then the (rp_reason rp)
                                                 else ''Revoked by '' @ rp_sourceApp rp)\<rparr>
                   else e"
  have frame: "unchangedWhere (\<lambda>e. \<not> ?mine e) s ?s'"
  proof (cases "rp_action rp = ''grant''")
    case False
    have "entitlements ?s' = map ?rev (entitlements s)"
      using False by (rule report_revoke_entitlements)
    then show ?thesis
      by (rule unchangedWhere_map) (simp add: reportRevokes_def)
  next
    case grant: True
    show ?thesis
    proof (cases "rp_expiresAt rp = Some InvalidDate")
      case True
      then have "entitlements ?s' = map (\<lambda>e. e) (entitlements s)"
        using report_grant_entitlements [OF grant, of now s] by simp
      then show ?thesis by (rule unchangedWhere_map) simp
    next
      case valid: False
      show ?thesis
      proof (cases "find ?mine (entitlements s)")
        case None
        then have "entitlements ?s' = map (\<lambda>e. e) (entitlements s) @
                     [\<lparr>ent_id = nextEntitlementId s, identityId = ?iid,
                       productId = rp_productId rp, source = ''direct'',
                       sourceApp = rp_sourceApp rp, bundleId = None, grantedAt = now,
                       expiresAt = storedDate (rp_expiresAt rp),
                       revokedAt = None, revokedReason = None,
                       stripeSubscriptionId = rp_stripeSubscriptionId rp,
                       stripePriceId = rp_stripePriceId rp,
                       amountPaid = rp_amountPaid rp, currency = rp_currency rp\<rparr>]"
          using report_grant_entitlements [OF grant, of now s] valid by (simp add: Let_def)
        then show ?thesis by (rule unchangedWhere_append) simp
      next
        case (Some ex)
        then have ex: "ex \<in> set (entitlements s)" "?mine ex"
          using find_Some_mem [of ?mine "entitlements s" ex] by auto
        have "entitlements ?s' =
                map (\<lambda>e. if ent_id e = ent_id ex then reportGrantUpdate rp e else e) (entitlements s)"
          using report_grant_entitlements [OF grant, of now s] valid Some by (simp add: Let_def)
        then show ?thesis
        proof (rule unchangedWhere_map)
          fix e
          assume e: "e \<in> set (entitlements s)" "\<not> ?mine e"
          then have "ent_id e \<noteq> ent_id ex"
            using distinct_map_eq [OF assms e(1) ex(1)] ex(2) by auto
          then show "(if ent_id e = ent_id ex then reportGrantUpdate rp e else e) = e" by simp
        qed
      qed
    qed
  qed
  have revoke: "rp_action rp \<noteq> ''grant'' \<Longrightarrow> entitlements ?s' = map ?rev (entitlements s)"
    by (rule report_revoke_entitlements)
  have grant: "(case find ?mine (entitlements s) of
                  Some ex \<Rightarrow>
                    entitlements ?s' =
                      map (\<lambda>e. if ent_id e = ent_id ex
                                then e\<lparr>stripeSubscriptionId := orKeep (rp_stripeSubscriptionId rp) (stripeSubscriptionId e),
                                    stripePriceId := orKeep (rp_stripePriceId rp) (stripePriceId e),
                                    amountPaid := orKeep (rp_amountPaid rp) (amountPaid e),
                                    currency := orKeep (rp_currency rp) (currency e),
                                    expiresAt := orKeep (storedDate (rp_expiresAt rp)) (expiresAt e),
                                    revokedAt := None, revokedReason := None\<rparr>
                                else e)
                        (entitlements s)
                | None \<Rightarrow>
                    entitlements ?s' = entitlements s @
                      [\<lparr>ent_id = nextEntitlementId s, identityId = ?iid,
                         productId = rp_productId rp, source = ''direct'',
                         sourceApp = rp_sourceApp rp, bundleId = None, grantedAt = now,
                         expiresAt = storedDate (rp_expiresAt rp),
                         revokedAt = None, revokedReason = None,
                         stripeSubscriptionId = rp_stripeSubscriptionId rp,
                         stripePriceId = rp_stripePriceId rp,
                         amountPaid = rp_amountPaid rp, currency = rp_currency rp\<rparr>]) \<and>
               length (entitlements ?s') \<le> Suc (length (entitlements s)) \<and>
               (\<forall>e' \<in> set (drop (length (entitlements s)) (entitlements ?s')). ?mine e') \<and>
               (\<exists>e' \<in> set (entitlements ?s'). ?mine e' \<and> revokedAt e' = None)"
    if g: "rp_action rp = ''grant''" and valid: "rp_expiresAt rp \<noteq> Some InvalidDate"
  proof (cases "find ?mine (entitlements s)")
    case None
    then have eq: "entitlements ?s' = entitlements s @
                     [\<lparr>ent_id = nextEntitlementId s, identityId = ?iid,
                       productId = rp_productId rp, source = ''direct'',
                       sourceApp = rp_sourceApp rp, bundleId = None, grantedAt = now,
                       expiresAt = storedDate (rp_expiresAt rp),
                       revokedAt = None, revokedReason = None,
                       stripeSubscriptionId = rp_stripeSubscriptionId rp,
                       stripePriceId = rp_stripePriceId rp,
                       amountPaid = rp_amountPaid rp, currency = rp_currency rp\<rparr>]"
      using report_grant_entitlements [OF g, of now s] valid by (simp add: Let_def)
    have rest: "length (entitlements ?s') \<le> Suc (length (entitlements s)) \<and>
               (\<forall>e' \<in> set (drop (length (entitlements s)) (entitlements ?s')). ?mine e') \<and>
               (\<exists>e' \<in> set (entitlements ?s'). ?mine e' \<and> revokedAt e' = None)"
      by (simp add: eq hasKey_def)
    show ?thesis
      apply (rule conjI)
       apply (simp only: None option.case)
       apply (rule eq)
      apply (rule rest)
      done
  next
    case (Some ex)
    then have ex: "ex \<in> set (entitlements s)" "?mine ex"
      using find_Some_mem [of ?mine "entitlements s" ex] by auto
    have eq: "entitlements ?s' =
                map (\<lambda>e. if ent_id e = ent_id ex then reportGrantUpdate rp e else e) (entitlements s)"
      using report_grant_entitlements [OF g, of now s] valid Some by (simp add: Let_def)
    have "reportGrantUpdate rp ex \<in> set (entitlements ?s')"
      unfolding eq using ex(1) by (auto simp: image_iff intro!: bexI [of _ ex])
    moreover have "?mine (reportGrantUpdate rp ex) \<and> revokedAt (reportGrantUpdate rp ex) = None"
      using ex(2) by (simp add: hasKey_def reportGrantUpdate_def)
    ultimately have "\<exists>e' \<in> set (entitlements ?s'). ?mine e' \<and> revokedAt e' = None" by blast
    then have rest: "length (entitlements ?s') \<le> Suc (length (entitlements s)) \<and>
               (\<forall>e' \<in> set (drop (length (entitlements s)) (entitlements ?s')). ?mine e') \<and>
               (\<exists>e' \<in> set (entitlements ?s'). ?mine e' \<and> revokedAt e' = None)"
      by (simp add: eq)
    show ?thesis
      apply (rule conjI)
       apply (simp only: Some option.case)
       apply (rule eq [unfolded reportGrantUpdate_def])
      apply (rule rest)
      done
  qed
  have invalid: "fst (reportExternalSubscription now rp s) = Inl InvalidDateArgument \<and>
               entitlements ?s' = entitlements s"
    if g: "rp_action rp = ''grant''" and inv: "rp_expiresAt rp = Some InvalidDate"
    using report_grant_invalid [OF g inv, of now s] report_grant_entitlements [OF g, of now s] inv
    by simp
  show ?thesis
    unfolding Let_def using frame revoke grant invalid by blast
qed

text \<open>
  In the example ledger the revoke report of \<open>rezume\<close> revokes the direct row only;
  the bundle row and the promo row of the same product are as before.  A grant
  report of \<open>rezume\<close> with a subscription id and the expiry 900 refreshes the
  direct row in place: the row keeps its id and its grant time and takes the two
  reported columns, and the table still has three rows.  A grant report of the app
  \<open>aicoach\<close> for the same product finds no direct row of that app and appends one.
\<close>

theorem reportExternalSubscription_scope_witness:
  "distinct (map ent_id (entitlements ledgerState)) \<and>
   unchangedWhere (\<lambda>e. \<not> hasKey 0 ''rezume'' ''direct'' ''rezume'' e) ledgerState
     (snd (reportExternalSubscription 100 annRevokeReport ledgerState)) \<and>
   map revokedAt (entitlements (snd (reportExternalSubscription 100 annRevokeReport ledgerState))) =
     [None, Some 100, Some 40] \<and>
   rp_action annGrantReport = ''grant'' \<and> rp_expiresAt annGrantReport \<noteq> Some InvalidDate \<and>
   entitlements (snd (reportExternalSubscription 100 annGrantReport ledgerState)) =
     [row 0 ''bundle'' ''central'' 10 None None,
      (row 1 ''direct'' ''rezume'' 20 (Some 500) None)
        \<lparr>expiresAt := Some 900, stripeSubscriptionId := Some ''sub_9''\<rparr>,
      row 2 ''promo'' ''central'' 30 None (Some 40)] \<and>
   rp_action coachGrantReport = ''grant'' \<and> rp_expiresAt coachGrantReport \<noteq> Some InvalidDate \<and>
   entitlements (snd (reportExternalSubscription 100 coachGrantReport ledgerState)) =
     [row 0 ''bundle'' ''central'' 10 None None,
      row 1 ''direct'' ''rezume'' 20 (Some 500) None,
      row 2 ''promo'' ''central'' 30 None (Some 40),
      row 3 ''direct'' ''aicoach'' 100 None None]"
proof -
  have d: "distinct (map ent_id (entitlements ledgerState))"
    by (simp add: ledgerState_def emptyState_def row_def)
  have i: "identity_id (fst (getOrCreateIdentity (rp_email annRevokeReport) None ledgerState)) = 0"
    by (simp add: getOrCreateIdentity_def annRevokeReport_def ledgerState_def emptyState_def lower_ann Let_def)
  have a: "rp_action annRevokeReport \<noteq> ''grant''"
    by (simp add: annRevokeReport_def)
  have p: "rp_productId annRevokeReport = ''rezume''" "rp_sourceApp annRevokeReport = ''rezume''"
    by (simp_all add: annRevokeReport_def)
  let ?s' = "snd (reportExternalSubscription 100 annRevokeReport ledgerState)"
  have th: "unchangedWhere (\<lambda>e. \<not> hasKey 0 ''rezume'' ''direct'' ''rezume'' e) ledgerState ?s' \<and>
            entitlements ?s' =
              map (\<lambda>e. if reportRevokes annRevokeReport 0 e
                        then e\<lparr>revokedAt := Some 100,
                               revokedReason := Some (if truthy (rp_reason annRevokeReport)
                                                      then the (rp_reason annRevokeReport)
                                                      else ''Revoked by '' @ rp_sourceApp annRevokeReport)\<rparr>
                        else e)
                (entitlements ledgerState)"
    using reportExternalSubscription_scope [OF d, of annRevokeReport 100] a
    unfolding Let_def i p by blast
  then have r: "map revokedAt (entitlements ?s') = [None, Some 100, Some 40]"
    by (simp add: ledgerState_def emptyState_def row_def reportRevokes_def hasKey_def
        annRevokeReport_def truthy_def)
  have ig: "identity_id (fst (getOrCreateIdentity (rp_email annGrantReport) None ledgerState)) = 0"
    by (simp add: getOrCreateIdentity_def annGrantReport_def ledgerState_def emptyState_def lower_ann Let_def)
  have ag: "rp_action annGrantReport = ''grant''" "rp_expiresAt annGrantReport \<noteq> Some InvalidDate"
    by (simp_all add: annGrantReport_def)
  have fg: "find (hasKey 0 (rp_productId annGrantReport) ''direct'' (rp_sourceApp annGrantReport))
              (entitlements ledgerState) = Some (row 1 ''direct'' ''rezume'' 20 (Some 500) None)"
    by (simp add: annGrantReport_def ledgerState_def emptyState_def row_def hasKey_def)
  have "entitlements (snd (reportExternalSubscription 100 annGrantReport ledgerState)) =
          map (\<lambda>e. if ent_id e = ent_id (row 1 ''direct'' ''rezume'' 20 (Some 500) None)
                    then e\<lparr>stripeSubscriptionId := orKeep (rp_stripeSubscriptionId annGrantReport) (stripeSubscriptionId e),
                           stripePriceId := orKeep (rp_stripePriceId annGrantReport) (stripePriceId e),
                           amountPaid := orKeep (rp_amountPaid annGrantReport) (amountPaid e),
                           currency := orKeep (rp_currency annGrantReport) (currency e),
                           expiresAt := orKeep (storedDate (rp_expiresAt annGrantReport)) (expiresAt e),
                           revokedAt := None, revokedReason := None\<rparr>
                    else e)
            (entitlements ledgerState)"
    using reportExternalSubscription_scope [OF d, of annGrantReport 100] ag
    unfolding Let_def ig by (simp only: fg option.case) blast
  then have g: "entitlements (snd (reportExternalSubscription 100 annGrantReport ledgerState)) =
     [row 0 ''bundle'' ''central'' 10 None None,
      (row 1 ''direct'' ''rezume'' 20 (Some 500) None)
        \<lparr>expiresAt := Some 900, stripeSubscriptionId := Some ''sub_9''\<rparr>,
      row 2 ''promo'' ''central'' 30 None (Some 40)]"
    by (simp add: ledgerState_def emptyState_def row_def annGrantReport_def orKeep_def
        storedDate_def)
  have ic: "identity_id (fst (getOrCreateIdentity (rp_email coachGrantReport) None ledgerState)) = 0"
    by (simp add: getOrCreateIdentity_def coachGrantReport_def ledgerState_def emptyState_def lower_ann Let_def)
  have ac: "rp_action coachGrantReport = ''grant''" "rp_expiresAt coachGrantReport \<noteq> Some InvalidDate"
    by (simp_all add: coachGrantReport_def)
  have fc: "find (hasKey 0 (rp_productId coachGrantReport) ''direct'' (rp_sourceApp coachGrantReport))
              (entitlements ledgerState) = None"
    by (simp add: coachGrantReport_def ledgerState_def emptyState_def row_def hasKey_def)
  have "entitlements (snd (reportExternalSubscription 100 coachGrantReport ledgerState)) =
          entitlements ledgerState @
            [\<lparr>ent_id = nextEntitlementId ledgerState, identityId = 0,
              productId = rp_productId coachGrantReport, source = ''direct'',
              sourceApp = rp_sourceApp coachGrantReport, bundleId = None, grantedAt = 100,
              expiresAt = storedDate (rp_expiresAt coachGrantReport),
              revokedAt = None, revokedReason = None,
              stripeSubscriptionId = rp_stripeSubscriptionId coachGrantReport,
              stripePriceId = rp_stripePriceId coachGrantReport,
              amountPaid = rp_amountPaid coachGrantReport, currency = rp_currency coachGrantReport\<rparr>]"
    using reportExternalSubscription_scope [OF d, of coachGrantReport 100] ac
    unfolding Let_def ic by (simp only: fc option.case) blast
  then have c: "entitlements (snd (reportExternalSubscription 100 coachGrantReport ledgerState)) =
     [row 0 ''bundle'' ''central'' 10 None None,
      row 1 ''direct'' ''rezume'' 20 (Some 500) None,
      row 2 ''promo'' ''central'' 30 None (Some 40),
      row 3 ''direct'' ''aicoach'' 100 None None]"
    by (simp add: ledgerState_def emptyState_def row_def coachGrantReport_def storedDate_def)
  show ?thesis using d th r ag g ac c by blast
qed

section \<open>Properties of the grant\<close>

lemma orKeep_idem: "orKeep x (orKeep x y) = orKeep x y"
  by (simp add: orKeep_def split: option.splits)

lemma grantUpdate_idem: "grantUpdate gp exp (grantUpdate gp exp e) = grantUpdate gp exp e"
  by (simp add: grantUpdate_def orKeep_idem)

lemma grantUpdate_key:
  "entKey (grantUpdate gp exp e) = entKey e"
  "hasKey i p src app (grantUpdate gp exp e) = hasKey i p src app e"
  "ent_id (grantUpdate gp exp e) = ent_id e"
  by (simp_all add: grantUpdate_def entKey_def hasKey_def)

lemma hasKey_entKey: "hasKey i p src app e \<longleftrightarrow> entKey e = (i, p, src, app)"
  by (auto simp: hasKey_def entKey_def)

lemma find_hasKey_None:
  "find (hasKey i p src app) xs = None \<longleftrightarrow> (i, p, src, app) \<notin> set (map entKey xs)"
  by (auto simp: find_None_iff hasKey_entKey intro: rev_image_eqI)

lemma grantOne_None:
  "find (hasKey (gp_identityId gp) p (gp_source gp) app) (entitlements s0) = None \<Longrightarrow>
   entitlements (grantOne now gp app exp s0 p s) =
     entitlements s @ [grantCreate now gp app exp p (nextEntitlementId s)]"
  by (simp add: grantOne_def)

lemma grantOne_Some:
  "find (hasKey (gp_identityId gp) p (gp_source gp) app) (entitlements s0) = Some ex \<Longrightarrow>
   entitlements (grantOne now gp app exp s0 p s) =
     map (\<lambda>e. if ent_id e = ent_id ex then grantUpdate gp exp e else e) (entitlements s)"
  by (simp add: grantOne_def)

lemma grantCreate_key:
  "entKey (grantCreate now gp app exp p n) = (gp_identityId gp, p, gp_source gp, app)"
  "hasKey i q src a (grantCreate now gp app exp p n) \<longleftrightarrow>
     (gp_identityId gp = i \<and> p = q \<and> gp_source gp = src \<and> app = a)"
  by (simp_all add: grantCreate_def entKey_def hasKey_def)

lemma map_entKey_update:
  "map entKey (map (\<lambda>e. if ent_id e = n then grantUpdate gp exp e else e) xs) = map entKey xs"
  by (induction xs) (simp_all add: grantUpdate_key)

text \<open>The keys of the table after the callbacks for \<open>ps\<close>: the old keys, then one
  new key for each product that had no row when \<open>grantAccess\<close> was called.\<close>

lemma fold_grantOne_keys:
  "map entKey (entitlements (fold (grantOne now gp app exp s0) ps s)) =
     map entKey (entitlements s) @
     map (\<lambda>p. (gp_identityId gp, p, gp_source gp, app))
       (filter (\<lambda>p. find (hasKey (gp_identityId gp) p (gp_source gp) app) (entitlements s0) = None) ps)"
proof (induction ps arbitrary: s)
  case Nil
  then show ?case by simp
next
  case (Cons p ps)
  show ?case
  proof (cases "find (hasKey (gp_identityId gp) p (gp_source gp) app) (entitlements s0)")
    case None
    then show ?thesis
      by (simp add: Cons.IH grantOne_None grantCreate_key)
  next
    case (Some ex)
    then show ?thesis
      by (simp add: Cons.IH grantOne_Some map_entKey_update grantUpdate_key)
  qed
qed

lemma fold_grantOne_unique:
  assumes "distinct (map entKey (entitlements s))" and "distinct ps"
  shows "distinct (map entKey (entitlements (fold (grantOne now gp app exp s) ps s)))"
proof -
  let ?new = "filter (\<lambda>p. find (hasKey (gp_identityId gp) p (gp_source gp) app) (entitlements s) = None) ps"
  have inj: "inj_on (\<lambda>p. (gp_identityId gp, p, gp_source gp, app)) (set ?new)"
    by (simp add: inj_on_def)
  have "distinct ?new" using assms(2) by simp
  then have 1: "distinct (map (\<lambda>p. (gp_identityId gp, p, gp_source gp, app)) ?new)"
    using inj by (simp add: distinct_map)
  have 2: "set (map entKey (entitlements s)) \<inter>
           set (map (\<lambda>p. (gp_identityId gp, p, gp_source gp, app)) ?new) = {}"
    using find_hasKey_None [of "gp_identityId gp" _ "gp_source gp" app "entitlements s"] by auto
  show ?thesis
    unfolding fold_grantOne_keys using assms(1) 1 2 by simp
qed

text \<open>The row of a product that had a row: after the callbacks it is that row,
  updated, and still the only row of its key.\<close>

lemma fold_grantOne_existing:
  assumes "find (hasKey (gp_identityId gp) p (gp_source gp) app) (entitlements s0) = Some ex"
    and "filter (hasKey (gp_identityId gp) p (gp_source gp) app) (entitlements s) = [r]"
    and "r = grantUpdate gp exp ex \<or> (r = ex \<and> p \<in> set ps)"
  shows "filter (hasKey (gp_identityId gp) p (gp_source gp) app)
           (entitlements (fold (grantOne now gp app exp s0) ps s)) = [grantUpdate gp exp ex]"
  using assms(2,3)
proof (induction ps arbitrary: s r)
  case Nil
  then show ?case by simp
next
  case (Cons q ps)
  let ?K = "hasKey (gp_identityId gp) p (gp_source gp) app"
  show ?case
  proof (cases "find (hasKey (gp_identityId gp) q (gp_source gp) app) (entitlements s0)")
    case None
    then have qp: "q \<noteq> p" using assms(1) by auto
    let ?s1 = "grantOne now gp app exp s0 q s"
    have "filter ?K (entitlements ?s1) = [r]"
      using None qp Cons.prems(1) by (simp add: grantOne_None grantCreate_key)
    moreover have "r = grantUpdate gp exp ex \<or> (r = ex \<and> p \<in> set ps)"
      using Cons.prems(2) qp by auto
    ultimately show ?thesis using Cons.IH [of ?s1 r] by simp
  next
    case (Some ex')
    let ?s1 = "grantOne now gp app exp s0 q s"
    let ?u = "\<lambda>e. if ent_id e = ent_id ex' then grantUpdate gp exp e else e"
    have "filter ?K (map ?u (entitlements s)) = map ?u (filter ?K (entitlements s))"
      by (induction "entitlements s") (auto simp: filter_map o_def grantUpdate_key)
    then have f1: "filter ?K (entitlements ?s1) = [?u r]"
      using Some Cons.prems(1) by (simp add: grantOne_Some)
    have "?u r = grantUpdate gp exp ex \<or> (?u r = ex \<and> p \<in> set ps)"
    proof (cases "q = p")
      case True
      then have "ex' = ex" using Some assms(1) by simp
      moreover have "ent_id r = ent_id ex" using Cons.prems(2) by (auto simp: grantUpdate_key)
      ultimately show ?thesis using Cons.prems(2) by (auto simp: grantUpdate_idem)
    next
      case False
      then show ?thesis using Cons.prems(2) by (auto simp: grantUpdate_idem)
    qed
    then show ?thesis using Cons.IH [of ?s1 "?u r"] f1 by simp
  qed
qed

lemma unique_filter_find:
  "distinct (map entKey xs) \<Longrightarrow> find (hasKey i p src app) xs = Some ex \<Longrightarrow>
   filter (hasKey i p src app) xs = [ex]"
proof (induction xs)
  case Nil
  then show ?case by simp
next
  case (Cons x xs)
  show ?case
  proof (cases "hasKey i p src app x")
    case True
    then have "x = ex" using Cons.prems(2) by simp
    moreover have "entKey x \<notin> entKey ` set xs" using Cons.prems(1) by simp
    then have "\<And>y. y \<in> set xs \<Longrightarrow> entKey y \<noteq> entKey x" by (metis imageI)
    then have "\<And>y. y \<in> set xs \<Longrightarrow> \<not> hasKey i p src app y"
      using True by (simp add: hasKey_entKey)
    then have "filter (hasKey i p src app) xs = []"
      by (simp add: filter_empty_conv)
    ultimately show ?thesis using True by simp
  next
    case False
    then show ?thesis using Cons by simp
  qed
qed

lemma grantAccess_error:
  "fst (grantAccess now gp s) \<noteq> Inr () \<Longrightarrow> snd (grantAccess now gp s) = s"
  by (simp add: grantAccess_def Let_def split: if_splits)

lemma grantAccess_entitlements:
  "fst (grantAccess now gp s) = Inr () \<Longrightarrow>
   entitlements (snd (grantAccess now gp s)) =
     entitlements (fold (grantOne now gp (grantApp gp) (storedDate (grantExpiry (hostZone s) now gp)) s)
                     (gp_productIds gp) s)"
  by (simp add: grantAccess_def Let_def split: if_splits)

lemma grantAccess_unique:
  assumes "uniqueKeys s" and "distinct (gp_productIds gp)"
  shows "uniqueKeys (snd (grantAccess now gp s))"
proof (cases "fst (grantAccess now gp s) = Inr ()")
  case True
  then show ?thesis
    using fold_grantOne_unique [OF assms(1) [unfolded uniqueKeys_def] assms(2)]
    by (simp add: uniqueKeys_def grantAccess_entitlements)
next
  case False
  then show ?thesis using assms(1) by (simp add: grantAccess_error)
qed

text \<open>
  Claim C5.  From a table in which no two rows share a key, a grant for a list of
  distinct products gives a table in which no two rows share a key.  Where a row of
  the key exists, the grant updates it in place: afterwards the rows of that key are
  that one row, with the same id and grant time, the new expiry, and no revocation.
\<close>

theorem grantAccess_upsert:
  assumes "uniqueKeys s" and "distinct (gp_productIds gp)"
  shows "uniqueKeys (snd (grantAccess now gp s)) \<and>
    (\<forall>p ex. p \<in> set (gp_productIds gp) \<longrightarrow>
       find (hasKey (gp_identityId gp) p (gp_source gp) (grantApp gp)) (entitlements s) = Some ex \<longrightarrow>
       fst (grantAccess now gp s) = Inr () \<longrightarrow>
       (\<exists>r. filter (hasKey (gp_identityId gp) p (gp_source gp) (grantApp gp))
               (entitlements (snd (grantAccess now gp s))) = [r] \<and>
            r = grantUpdate gp (storedDate (grantExpiry (hostZone s) now gp)) ex \<and>
            ent_id r = ent_id ex \<and> grantedAt r = grantedAt ex \<and>
            expiresAt r = storedDate (grantExpiry (hostZone s) now gp) \<and>
            revokedAt r = None \<and> revokedReason r = None))"
proof (intro conjI allI impI)
  show "uniqueKeys (snd (grantAccess now gp s))"
    using assms by (rule grantAccess_unique)
next
  fix p ex
  let ?K = "hasKey (gp_identityId gp) p (gp_source gp) (grantApp gp)"
  let ?exp = "storedDate (grantExpiry (hostZone s) now gp)"
  assume p: "p \<in> set (gp_productIds gp)"
    and f: "find ?K (entitlements s) = Some ex"
    and ok: "fst (grantAccess now gp s) = Inr ()"
  have one: "filter ?K (entitlements s) = [ex]"
    using assms(1) f unfolding uniqueKeys_def by (rule unique_filter_find)
  have "filter ?K (entitlements (fold (grantOne now gp (grantApp gp) ?exp s) (gp_productIds gp) s)) =
          [grantUpdate gp ?exp ex]"
    using f one by (rule fold_grantOne_existing) (simp add: p)
  then have "filter ?K (entitlements (snd (grantAccess now gp s))) = [grantUpdate gp ?exp ex]"
    using ok by (simp add: grantAccess_entitlements)
  then show "\<exists>r. filter ?K (entitlements (snd (grantAccess now gp s))) = [r] \<and>
            r = grantUpdate gp ?exp ex \<and>
            ent_id r = ent_id ex \<and> grantedAt r = grantedAt ex \<and>
            expiresAt r = ?exp \<and> revokedAt r = None \<and> revokedReason r = None"
    by (simp add: grantUpdate_def)
qed

text \<open>
  In the example ledger the promo row of identity 0 is revoked and has no expiry.
  A promo grant of 30 days on 1 January 2025 leaves three rows; the promo row has
  the new expiry and is no longer revoked.
\<close>

theorem grantAccess_upsert_witness:
  "uniqueKeys ledgerState \<and> distinct (gp_productIds promoGrant) \<and>
   uniqueKeys (snd (grantAccess (utc 2025 0 1) promoGrant ledgerState)) \<and>
   find (hasKey 0 ''rezume'' ''promo'' ''central'') (entitlements ledgerState) =
     Some (row 2 ''promo'' ''central'' 30 None (Some 40)) \<and>
   filter (hasKey 0 ''rezume'' ''promo'' ''central'')
     (entitlements (snd (grantAccess (utc 2025 0 1) promoGrant ledgerState))) =
     [(row 2 ''promo'' ''central'' 30 None (Some 40))\<lparr>expiresAt := Some (utc 2025 0 31), revokedAt := None\<rparr>] \<and>
   length (entitlements (snd (grantAccess (utc 2025 0 1) promoGrant ledgerState))) = 3"
proof -
  let ?now = "utc 2025 0 1"
  let ?ex = "row 2 ''promo'' ''central'' 30 None (Some 40)"
  have u: "uniqueKeys ledgerState"
    by (simp add: uniqueKeys_def ledgerState_def emptyState_def row_def entKey_def)
  have d: "distinct (gp_productIds promoGrant)"
    by (simp add: promoGrant_def)
  have g: "gp_identityId promoGrant = 0" "gp_source promoGrant = ''promo''"
    "grantApp promoGrant = ''central''" "gp_productIds promoGrant = [''rezume'']"
    by (simp_all add: promoGrant_def grantApp_def)
  have e: "grantExpiry (hostZone ledgerState) ?now promoGrant = Some (TimeValue (utc 2025 0 31))"
    unfolding grantExpiry_def promoGrant_def by code_simp
  have f: "find (hasKey 0 ''rezume'' ''promo'' ''central'') (entitlements ledgerState) = Some ?ex"
    by (simp add: ledgerState_def emptyState_def row_def hasKey_def)
  have ok: "fst (grantAccess ?now promoGrant ledgerState) = Inr ()"
    by (simp add: grantAccess_def Let_def e)
  have th: "uniqueKeys (snd (grantAccess ?now promoGrant ledgerState)) \<and>
        (\<exists>r. filter (hasKey 0 ''rezume'' ''promo'' ''central'')
               (entitlements (snd (grantAccess ?now promoGrant ledgerState))) = [r] \<and>
            r = grantUpdate promoGrant (storedDate (grantExpiry (hostZone ledgerState) ?now promoGrant)) ?ex)"
    using grantAccess_upsert [OF u d, of ?now] f ok unfolding g by auto
  have r: "grantUpdate promoGrant (storedDate (grantExpiry (hostZone ledgerState) ?now promoGrant)) ?ex =
           ?ex\<lparr>expiresAt := Some (utc 2025 0 31), revokedAt := None\<rparr>"
    by (simp only: e) (simp add: grantUpdate_def storedDate_def promoGrant_def orKeep_def row_def)
  have l: "length (entitlements (snd (grantAccess ?now promoGrant ledgerState))) = 3"
    using fold_grantOne_keys [of ?now promoGrant "''central''" "storedDate (grantExpiry (hostZone ledgerState) ?now promoGrant)"
        ledgerState "[''rezume'']" ledgerState, THEN arg_cong, of length] f ok
    by (simp add: grantAccess_entitlements g) (simp add: ledgerState_def emptyState_def)
  show ?thesis using u d th f r l by auto
qed

text \<open>
  Claim C5 as stated fails: nothing keeps the rows of a key to one.  In the example
  ledger no two rows share a key and identity 0 has no manual row for \<open>aicoach\<close>.
  A grant that names \<open>aicoach\<close> twice looks the row up twice before it inserts
  anything, finds none both times, and inserts two rows of the same key.  The same
  happens with two grants that name the product once: when the second has looked
  the row up in the table as it was before the first one inserted, its insert
  follows the insert of the first.
\<close>

theorem grantAccess_repeat_counterexample:
  "uniqueKeys ledgerState \<and>
   fst (grantAccess 100 repeatGrant ledgerState) = Inr () \<and>
   \<not> uniqueKeys (snd (grantAccess 100 repeatGrant ledgerState)) \<and>
   map entKey (drop 3 (entitlements (snd (grantAccess 100 repeatGrant ledgerState)))) =
     [(0, ''aicoach'', ''manual'', ''central''), (0, ''aicoach'', ''manual'', ''central'')] \<and>
   distinct (gp_productIds coachGrant) \<and>
   uniqueKeys (snd (grantAccess 100 coachGrant ledgerState)) \<and>
   \<not> uniqueKeys (grantOne 101 coachGrant ''central'' None ledgerState ''aicoach''
                   (snd (grantAccess 100 coachGrant ledgerState))) \<and>
   map entKey (drop 3 (entitlements
       (grantOne 101 coachGrant ''central'' None ledgerState ''aicoach''
          (snd (grantAccess 100 coachGrant ledgerState))))) =
     [(0, ''aicoach'', ''manual'', ''central''), (0, ''aicoach'', ''manual'', ''central'')]"
  by code_simp

section \<open>Properties of the purchase event processor\<close>

lemma grantOne_frame:
  "identities (grantOne now gp app exp s0 p s) = identities s \<and>
   identityEmails (grantOne now gp app exp s0 p s) = identityEmails s \<and>
   bundles (grantOne now gp app exp s0 p s) = bundles s \<and>
   products (grantOne now gp app exp s0 p s) = products s \<and>
   claimTokens (grantOne now gp app exp s0 p s) = claimTokens s \<and>
   productSubmissions (grantOne now gp app exp s0 p s) = productSubmissions s \<and>
   auditLogs (grantOne now gp app exp s0 p s) = auditLogs s \<and>
   webhookLogs (grantOne now gp app exp s0 p s) = webhookLogs s \<and>
   syncPushes (grantOne now gp app exp s0 p s) = syncPushes s \<and>
   emailsSent (grantOne now gp app exp s0 p s) = emailsSent s \<and>
   nextIdentityId (grantOne now gp app exp s0 p s) = nextIdentityId s \<and>
   adminApiKey (grantOne now gp app exp s0 p s) = adminApiKey s"
  by (simp add: grantOne_def split: option.splits)

lemma fold_grantOne_frame:
  "identities (fold (grantOne now gp app exp s0) ps s) = identities s \<and>
   identityEmails (fold (grantOne now gp app exp s0) ps s) = identityEmails s \<and>
   bundles (fold (grantOne now gp app exp s0) ps s) = bundles s \<and>
   products (fold (grantOne now gp app exp s0) ps s) = products s \<and>
   claimTokens (fold (grantOne now gp app exp s0) ps s) = claimTokens s \<and>
   productSubmissions (fold (grantOne now gp app exp s0) ps s) = productSubmissions s \<and>
   auditLogs (fold (grantOne now gp app exp s0) ps s) = auditLogs s \<and>
   webhookLogs (fold (grantOne now gp app exp s0) ps s) = webhookLogs s \<and>
   syncPushes (fold (grantOne now gp app exp s0) ps s) = syncPushes s \<and>
   emailsSent (fold (grantOne now gp app exp s0) ps s) = emailsSent s \<and>
   nextIdentityId (fold (grantOne now gp app exp s0) ps s) = nextIdentityId s \<and>
   adminApiKey (fold (grantOne now gp app exp s0) ps s) = adminApiKey s"
proof (induction ps arbitrary: s)
  case Nil
  then show ?case by simp
next
  case (Cons p ps)
  show ?case
    using Cons.IH [of "grantOne now gp app exp s0 p s"] grantOne_frame [of now gp app exp s0 p s]
    by simp
qed

lemma grantAccess_frame:
  "identities (snd (grantAccess now gp s)) = identities s \<and>
   identityEmails (snd (grantAccess now gp s)) = identityEmails s \<and>
   bundles (snd (grantAccess now gp s)) = bundles s \<and>
   products (snd (grantAccess now gp s)) = products s \<and>
   claimTokens (snd (grantAccess now gp s)) = claimTokens s \<and>
   productSubmissions (snd (grantAccess now gp s)) = productSubmissions s \<and>
   webhookLogs (snd (grantAccess now gp s)) = webhookLogs s \<and>
   syncPushes (snd (grantAccess now gp s)) = syncPushes s \<and>
   emailsSent (snd (grantAccess now gp s)) = emailsSent s \<and>
   nextIdentityId (snd (grantAccess now gp s)) = nextIdentityId s \<and>
   adminApiKey (snd (grantAccess now gp s)) = adminApiKey s"
  using fold_grantOne_frame [of now gp "grantApp gp" "storedDate (grantExpiry (hostZone s) now gp)" s "gp_productIds gp" s]
  by (simp add: grantAccess_def Let_def)

lemma getOrCreateIdentity_frame:
  "identityEmails (snd (getOrCreateIdentity e c s)) = identityEmails s \<and>
   bundles (snd (getOrCreateIdentity e c s)) = bundles s \<and>
   products (snd (getOrCreateIdentity e c s)) = products s \<and>
   claimTokens (snd (getOrCreateIdentity e c s)) = claimTokens s \<and>
   auditLogs (snd (getOrCreateIdentity e c s)) = auditLogs s \<and>
   webhookLogs (snd (getOrCreateIdentity e c s)) = webhookLogs s \<and>
   syncPushes (snd (getOrCreateIdentity e c s)) = syncPushes s \<and>
   emailsSent (snd (getOrCreateIdentity e c s)) = emailsSent s \<and>
   adminApiKey (snd (getOrCreateIdentity e c s)) = adminApiKey s"
  by (simp add: getOrCreateIdentity_def Let_def split: option.splits)

lemma upsertIdentityEmail_frame:
  "identities (upsertIdentityEmail b i e p s) = identities s \<and>
   bundles (upsertIdentityEmail b i e p s) = bundles s \<and>
   products (upsertIdentityEmail b i e p s) = products s \<and>
   claimTokens (upsertIdentityEmail b i e p s) = claimTokens s \<and>
   auditLogs (upsertIdentityEmail b i e p s) = auditLogs s \<and>
   webhookLogs (upsertIdentityEmail b i e p s) = webhookLogs s \<and>
   syncPushes (upsertIdentityEmail b i e p s) = syncPushes s \<and>
   emailsSent (upsertIdentityEmail b i e p s) = emailsSent s \<and>
   nextIdentityId (upsertIdentityEmail b i e p s) = nextIdentityId s \<and>
   adminApiKey (upsertIdentityEmail b i e p s) = adminApiKey s"
  by (simp add: upsertIdentityEmail_def split: option.splits)

lemma fold_upsert_frame:
  "identities (fold (upsertIdentityEmail b i e) ps s) = identities s \<and>
   entitlements (fold (upsertIdentityEmail b i e) ps s) = entitlements s \<and>
   nextEntitlementId (fold (upsertIdentityEmail b i e) ps s) = nextEntitlementId s \<and>
   bundles (fold (upsertIdentityEmail b i e) ps s) = bundles s \<and>
   products (fold (upsertIdentityEmail b i e) ps s) = products s \<and>
   claimTokens (fold (upsertIdentityEmail b i e) ps s) = claimTokens s \<and>
   auditLogs (fold (upsertIdentityEmail b i e) ps s) = auditLogs s \<and>
   webhookLogs (fold (upsertIdentityEmail b i e) ps s) = webhookLogs s \<and>
   syncPushes (fold (upsertIdentityEmail b i e) ps s) = syncPushes s \<and>
   emailsSent (fold (upsertIdentityEmail b i e) ps s) = emailsSent s \<and>
   nextIdentityId (fold (upsertIdentityEmail b i e) ps s) = nextIdentityId s \<and>
   adminApiKey (fold (upsertIdentityEmail b i e) ps s) = adminApiKey s"
proof (induction ps arbitrary: s)
  case Nil
  then show ?case by simp
next
  case (Cons p ps)
  show ?case
    using Cons.IH [of "upsertIdentityEmail b i e p s"] upsertIdentityEmail_frame [of b i e p s]
      upsertIdentityEmail_entitlements [of b i e p s]
    by simp
qed

lemma createClaimToken_frame:
  "entitlements (snd (createClaimToken now tok i b e sid s)) = entitlements s \<and>
   syncPushes (snd (createClaimToken now tok i b e sid s)) = syncPushes s \<and>
   webhookLogs (snd (createClaimToken now tok i b e sid s)) = webhookLogs s"
  by (simp add: createClaimToken_def Let_def split: jsdate.splits)

lemma handleCheckoutCompleted_syncPushes:
  "syncPushes (snd (handleCheckoutCompleted now tok session s)) = syncPushes s"
proof -
  have g: "\<And>gp st. syncPushes (snd (grantAccess now gp st)) = syncPushes st"
    by (simp add: grantAccess_frame)
  have c: "\<And>i b e sid st. syncPushes (snd (createClaimToken now tok i b e sid st)) = syncPushes st"
    by (simp add: createClaimToken_frame)
  have i: "\<And>e c st. syncPushes (snd (getOrCreateIdentity e c st)) = syncPushes st"
    by (simp add: getOrCreateIdentity_frame)
  have u: "\<And>b i e ps st. syncPushes (fold (upsertIdentityEmail b i e) ps st) = syncPushes st"
    by (simp add: fold_upsert_frame)
  show ?thesis
    unfolding handleCheckoutCompleted_def Let_def
    by (auto split: option.splits list.splits prod.splits sum.splits
        dest!: arg_cong [where f = "\<lambda>x. syncPushes (snd x)"] simp: g c i u)
qed

text \<open>
  Claim C6 on the code.  The checkout of the form-free bundle ``Pro Suite'' grants
  both products, the admin API key is configured and both products have a remote
  app, and yet no sync push is made: neither \<open>grantAccess\<close> nor
  \<open>handleCheckoutCompleted\<close> calls the dispatcher.
\<close>

theorem checkout_grant_without_sync:
  "fst (handleCheckoutCompleted (utc 2025 0 15) ''tok'' buyerSession shopState) =
     Inr (AccessGranted ''Pro Suite'' [''rezume'', ''aicoach'']) \<and>
   map (\<lambda>e. (productId e, source e, expiresAt e))
     (entitlements (snd (handleCheckoutCompleted (utc 2025 0 15) ''tok'' buyerSession shopState))) =
     [(''rezume'', ''bundle'', Some (utc 2025 6 15)), (''aicoach'', ''bundle'', Some (utc 2025 6 15))] \<and>
   truthy (adminApiKey shopState) \<and>
   appsToSync (productIds proSuite) = [''rezume'', ''aicoach''] \<and>
   syncPushes (snd (handleCheckoutCompleted (utc 2025 0 15) ''tok'' buyerSession shopState)) = [] \<and>
   map sync_app (syncPushes (grantAccessAndSync ''buyer@example.com'' (productIds proSuite) None
      (snd (handleCheckoutCompleted (utc 2025 0 15) ''tok'' buyerSession shopState)))) =
     [''rezume'', ''aicoach'']"
  by code_simp

section \<open>Properties of the claim workflow\<close>

lemma runWrites_inv:
  assumes "\<And>w s s'. w \<in> set ws \<Longrightarrow> w s = Inr s' \<Longrightarrow> P s \<Longrightarrow> P s'" and "P s"
  shows "P (snd (runWrites f ws s))"
  using assms
proof (induction ws arbitrary: f s)
  case Nil
  then show ?case by simp
next
  case (Cons w ws)
  show ?case
  proof (cases "f = Some 0")
    case True
    then show ?thesis using Cons.prems(2) by simp
  next
    case False
    show ?thesis
    proof (cases "w s")
      case (Inl e)
      then show ?thesis using False Cons.prems(2) by simp
    next
      case (Inr s')
      have ps': "P s'" using Cons.prems(1) [of w s s'] Inr Cons.prems(2) by simp
      have "P (snd (runWrites g ws s'))" for g
      proof (rule Cons.IH)
        fix v t t'
        assume "v \<in> set ws" "v t = Inr t'" "P t"
        then show "P t'" using Cons.prems(1) [of v t t'] by simp
      next
        show "P s'" by (rule ps')
      qed
      then show ?thesis using False Inr by simp
    qed
  qed
qed

lemma runWrites_append:
  "runWrites f (ws1 @ ws2) s =
     (case runWrites f ws1 s of
        (Some e, s') \<Rightarrow> (Some e, s')
      | (None, s') \<Rightarrow> runWrites (map_option (\<lambda>k. k - length ws1) f) ws2 s')"
proof (induction ws1 arbitrary: f s)
  case Nil
  then show ?case by (simp add: option.map_ident)
next
  case (Cons w ws1)
  have sub: "map_option (\<lambda>k. k - length ws1) (map_option (\<lambda>k. k - Suc 0) f) =
             map_option (\<lambda>k. k - Suc (length ws1)) f"
    by (cases f) simp_all
  show ?case
  proof (cases "f = Some 0")
    case True
    then show ?thesis by simp
  next
    case False
    then show ?thesis
      by (cases "w s") (auto simp: Cons.IH sub split: prod.splits option.splits)
  qed
qed

lemma runWrites_total:
  assumes "\<And>w s. w \<in> set ws \<Longrightarrow> \<exists>s'. w s = Inr s'"
  shows "fst (runWrites None ws s) = None"
  using assms
proof (induction ws arbitrary: s)
  case Nil
  then show ?case by simp
next
  case (Cons w ws)
  obtain s' where "w s = Inr s'" using Cons.prems [of w s] by auto
  then show ?case using Cons.IH [of s'] Cons.prems by simp
qed

lemma linkWrites_isLinkWrite: "w \<in> set (linkWrites iid pe p) \<Longrightarrow> isLinkWrite iid w"
  by (auto simp: linkWrites_def isLinkWrite_def split: option.splits if_splits)

lemma concat_linkWrites_isLinkWrite:
  "w \<in> set (concat (map (linkWrites iid pe) ps)) \<Longrightarrow> isLinkWrite iid w"
  by (auto dest: linkWrites_isLinkWrite)

lemma isLinkWrite_frame:
  assumes "isLinkWrite iid w" and "w s = Inr s'"
  shows "entitlements s' = entitlements s \<and> claimTokens s' = claimTokens s \<and>
         auditLogs s' = auditLogs s \<and> bundles s' = bundles s \<and>
         identities s' = identities s \<and> nextEntitlementId s' = nextEntitlementId s"
  using assms
  by (auto simp: isLinkWrite_def linkEmailToIdentity_def Let_def upsertIdentityEmail_frame
      upsertIdentityEmail_entitlements)

lemma links_frame:
  "entitlements (snd (runWrites f (concat (map (linkWrites iid pe) ps)) s)) = entitlements s \<and>
   claimTokens (snd (runWrites f (concat (map (linkWrites iid pe) ps)) s)) = claimTokens s \<and>
   auditLogs (snd (runWrites f (concat (map (linkWrites iid pe) ps)) s)) = auditLogs s \<and>
   bundles (snd (runWrites f (concat (map (linkWrites iid pe) ps)) s)) = bundles s \<and>
   identities (snd (runWrites f (concat (map (linkWrites iid pe) ps)) s)) = identities s \<and>
   nextEntitlementId (snd (runWrites f (concat (map (linkWrites iid pe) ps)) s)) = nextEntitlementId s"
proof (rule runWrites_inv
      [where P = "\<lambda>t. entitlements t = entitlements s \<and> claimTokens t = claimTokens s \<and>
                       auditLogs t = auditLogs s \<and> bundles t = bundles s \<and>
                       identities t = identities s \<and> nextEntitlementId t = nextEntitlementId s"])
  fix w t t'
  assume mem: "w \<in> set (concat (map (linkWrites iid pe) ps))" and wt: "w t = Inr t'"
    and t: "entitlements t = entitlements s \<and> claimTokens t = claimTokens s \<and>
            auditLogs t = auditLogs s \<and> bundles t = bundles s \<and>
            identities t = identities s \<and> nextEntitlementId t = nextEntitlementId s"
  from mem have "isLinkWrite iid w" by (rule concat_linkWrites_isLinkWrite)
  then show "entitlements t' = entitlements s \<and> claimTokens t' = claimTokens s \<and>
            auditLogs t' = auditLogs s \<and> bundles t' = bundles s \<and>
            identities t' = identities s \<and> nextEntitlementId t' = nextEntitlementId s"
    using isLinkWrite_frame [of iid w t t'] wt t by simp
qed simp

lemma links_hostZone:
  "hostZone (snd (runWrites f (concat (map (linkWrites iid pe) ps)) s)) = hostZone s"
proof (rule runWrites_inv [where P = "\<lambda>t. hostZone t = hostZone s"])
  fix w t t'
  assume mem: "w \<in> set (concat (map (linkWrites iid pe) ps))" and wt: "w t = Inr t'"
    and t: "hostZone t = hostZone s"
  from mem have "isLinkWrite iid w" by (rule concat_linkWrites_isLinkWrite)
  then have "hostZone t' = hostZone t"
    using wt
    by (auto simp: isLinkWrite_def linkEmailToIdentity_def Let_def upsertIdentityEmail_def
        split: option.splits)
  then show "hostZone t' = hostZone s" using t by simp
qed simp

lemma links_total:
  "fst (runWrites None (concat (map (linkWrites iid pe) ps)) s) = None"
proof (rule runWrites_total)
  fix w t
  assume "w \<in> set (concat (map (linkWrites iid pe) ps))"
  then have "isLinkWrite iid w" by (rule concat_linkWrites_isLinkWrite)
  then show "\<exists>t'. w t = Inr t'" by (auto simp: isLinkWrite_def)
qed

text \<open>After the callbacks of a grant every product of the list has a row of its
  key that carries the new expiry and no revocation.\<close>

lemma fold_grantOne_granted:
  assumes "\<forall>e0 \<in> set (entitlements s0). \<exists>e \<in> set (entitlements s). ent_id e = ent_id e0 \<and> entKey e = entKey e0"
    and "p \<in> set ps \<or>
         (\<exists>r \<in> set (entitlements s). hasKey (gp_identityId gp) p (gp_source gp) app r \<and>
            revokedAt r = None \<and> expiresAt r = exp)"
  shows "\<exists>r \<in> set (entitlements (fold (grantOne now gp app exp s0) ps s)).
           hasKey (gp_identityId gp) p (gp_source gp) app r \<and> revokedAt r = None \<and> expiresAt r = exp"
  using assms
proof (induction ps arbitrary: s)
  case Nil
  then show ?case by simp
next
  case (Cons q ps)
  let ?good = "\<lambda>r. hasKey (gp_identityId gp) p (gp_source gp) app r \<and> revokedAt r = None \<and> expiresAt r = exp"
  let ?s1 = "grantOne now gp app exp s0 q s"
  have upd: "?good (grantUpdate gp exp e)" if "hasKey (gp_identityId gp) p (gp_source gp) app e" for e
    using that by (simp add: grantUpdate_def hasKey_def)
  show ?case
  proof (cases "find (hasKey (gp_identityId gp) q (gp_source gp) app) (entitlements s0)")
    case None
    have e1: "entitlements ?s1 = entitlements s @ [grantCreate now gp app exp q (nextEntitlementId s)]"
      using None by (rule grantOne_None)
    have d1: "\<forall>e0 \<in> set (entitlements s0). \<exists>e \<in> set (entitlements ?s1). ent_id e = ent_id e0 \<and> entKey e = entKey e0"
      using Cons.prems(1) unfolding e1 by auto
    have g1: "p \<in> set ps \<or> (\<exists>r \<in> set (entitlements ?s1). ?good r)"
    proof (cases "p = q")
      case True
      have "?good (grantCreate now gp app exp q (nextEntitlementId s))"
        using True by (simp add: grantCreate_def hasKey_def)
      then show ?thesis unfolding e1 by auto
    next
      case False
      then show ?thesis using Cons.prems(2) unfolding e1 by auto
    qed
    show ?thesis using Cons.IH [OF d1 g1] by simp
  next
    case (Some ex)
    let ?u = "\<lambda>e. if ent_id e = ent_id ex then grantUpdate gp exp e else e"
    have e1: "entitlements ?s1 = map ?u (entitlements s)"
      using Some by (rule grantOne_Some)
    have uk: "ent_id (?u e) = ent_id e \<and> entKey (?u e) = entKey e" for e
      by (simp add: grantUpdate_key)
    have d1: "\<forall>e0 \<in> set (entitlements s0). \<exists>e \<in> set (entitlements ?s1). ent_id e = ent_id e0 \<and> entKey e = entKey e0"
    proof
      fix e0 assume "e0 \<in> set (entitlements s0)"
      then obtain e where e: "e \<in> set (entitlements s)" "ent_id e = ent_id e0" "entKey e = entKey e0"
        using Cons.prems(1) by blast
      then have "?u e \<in> set (entitlements ?s1)" unfolding e1 by simp
      then show "\<exists>e \<in> set (entitlements ?s1). ent_id e = ent_id e0 \<and> entKey e = entKey e0"
        using uk [of e] e by metis
    qed
    have keep: "?good (?u r)" if "?good r" for r
      using that upd [of r] by simp
    have g1: "p \<in> set ps \<or> (\<exists>r \<in> set (entitlements ?s1). ?good r)"
    proof (cases "\<exists>r \<in> set (entitlements s). ?good r")
      case True
      then obtain r where r: "r \<in> set (entitlements s)" "?good r" by blast
      then have "?u r \<in> set (entitlements ?s1)" unfolding e1 by simp
      then show ?thesis using keep [OF r(2)] by blast
    next
      case False
      then have pq: "p \<in> set (q # ps)" using Cons.prems(2) by blast
      show ?thesis
      proof (cases "p = q")
        case True
        have ex: "ex \<in> set (entitlements s0)" "hasKey (gp_identityId gp) p (gp_source gp) app ex"
          using find_Some_mem [OF Some] True by auto
        then obtain e where e: "e \<in> set (entitlements s)" "ent_id e = ent_id ex" "entKey e = entKey ex"
          using Cons.prems(1) by blast
        then have k: "hasKey (gp_identityId gp) p (gp_source gp) app e"
          using ex(2) by (simp add: hasKey_entKey)
        have "?u e = grantUpdate gp exp e" using e(2) by simp
        then have "?good (?u e)" using upd [OF k] by simp
        moreover have "?u e \<in> set (entitlements ?s1)" unfolding e1 using e(1) by simp
        ultimately show ?thesis by blast
      next
        case False
        then show ?thesis using pq by simp
      qed
    qed
    show ?thesis using Cons.IH [OF d1 g1] by simp
  qed
qed

lemma grantAccess_granted:
  assumes "fst (grantAccess now gp s) = Inr ()" and "p \<in> set (gp_productIds gp)"
  shows "\<exists>r \<in> set (entitlements (snd (grantAccess now gp s))).
           hasKey (gp_identityId gp) p (gp_source gp) (grantApp gp) r \<and> revokedAt r = None \<and>
           expiresAt r = storedDate (grantExpiry (hostZone s) now gp)"
proof -
  have "\<forall>e0 \<in> set (entitlements s). \<exists>e \<in> set (entitlements s). ent_id e = ent_id e0 \<and> entKey e = entKey e0"
    by blast
  then show ?thesis
    unfolding grantAccess_entitlements [OF assms(1)]
    by (rule fold_grantOne_granted) (simp add: assms(2))
qed

lemma claimGrantParams_simps:
  "gp_identityId (claimGrantParams b i) = identity_id i"
  "gp_productIds (claimGrantParams b i) = productIds b"
  "gp_source (claimGrantParams b i) = ''bundle''"
  "grantApp (claimGrantParams b i) = ''central''"
  by (simp_all add: claimGrantParams_def grantApp_def)

lemma grantWrite_Inr:
  assumes "grantWrite now b i s = Inr s'"
  shows "fst (grantAccess now (claimGrantParams b i) s) = Inr () \<and>
         s' = snd (grantAccess now (claimGrantParams b i) s)"
  using assms by (auto simp: grantWrite_def split: prod.splits sum.splits)

lemma grantWrite_granted:
  assumes "grantWrite now b i s = Inr s'"
  shows "bundleGranted i b s' \<and> claimTokens s' = claimTokens s \<and>
         auditLogs s' = auditLogs s @
           [\<lparr>action = ''grant'', al_identityId = identity_id i, al_productIds = productIds b,
             adminEmail = None\<rparr>] \<and>
         identityEmails s' = identityEmails s \<and> productSubmissions s' = productSubmissions s \<and>
         identities s' = identities s \<and> bundles s' = bundles s"
proof -
  have ok: "fst (grantAccess now (claimGrantParams b i) s) = Inr ()"
    and s': "s' = snd (grantAccess now (claimGrantParams b i) s)"
    using grantWrite_Inr [OF assms] by auto
  have "bundleGranted i b s'"
    unfolding bundleGranted_def s'
    using grantAccess_granted [OF ok, unfolded claimGrantParams_simps] by blast
  moreover have "auditLogs s' = auditLogs s @
           [\<lparr>action = ''grant'', al_identityId = identity_id i, al_productIds = productIds b,
             adminEmail = None\<rparr>]"
    using ok unfolding s'
    by (simp add: grantAccess_def Let_def fold_grantOne_frame claimGrantParams_simps split: if_splits)
  ultimately show ?thesis
    unfolding s' by (simp add: grantAccess_frame)
qed

lemma bundleGranted_cong: "entitlements s' = entitlements s \<Longrightarrow> bundleGranted i b s' = bundleGranted i b s"
  by (simp add: bundleGranted_def)

lemma claimedFlag_cong: "claimTokens s' = claimTokens s \<Longrightarrow> claimedFlag tok s' = claimedFlag tok s"
  by (simp add: claimedFlag_def)

lemma markClaimed_effect:
  "markClaimed now tok s = Inr s' \<Longrightarrow>
   entitlements s' = entitlements s \<and> auditLogs s' = auditLogs s \<and>
   identityEmails s' = identityEmails s \<and> productSubmissions s' = productSubmissions s \<and>
   identities s' = identities s \<and> bundles s' = bundles s \<and>
   claimTokens s' =
     map (\<lambda>c. if token c = tok then c\<lparr>claimed := True, claimedAt := Some now\<rparr> else c) (claimTokens s)"
  by (auto simp: markClaimed_def)

lemma claimAudit_effect:
  "claimAudit b i s = Inr s' \<Longrightarrow>
   entitlements s' = entitlements s \<and> claimTokens s' = claimTokens s \<and>
   identityEmails s' = identityEmails s \<and> productSubmissions s' = productSubmissions s \<and>
   identities s' = identities s \<and> bundles s' = bundles s \<and>
   auditLogs s' = auditLogs s @
     [\<lparr>action = ''claim'', al_identityId = identity_id i, al_productIds = productIds b,
       adminEmail = None\<rparr>]"
  by (auto simp: claimAudit_def)

lemma find_map_claimed:
  "find (\<lambda>c. token c = tok)
     (map (\<lambda>c. if token c = tok then c\<lparr>claimed := True, claimedAt := Some now\<rparr> else c) cs) =
   map_option (\<lambda>c. c\<lparr>claimed := True, claimedAt := Some now\<rparr>) (find (\<lambda>c. token c = tok) cs)"
  by (induction cs) auto

text \<open>Where the last three writes can stop.\<close>

lemma suffix_cases:
  assumes "runWrites f [grantWrite now b i, markClaimed now tok, claimAudit b i] s = (r, s')"
  shows "s' = s \<or>
         (\<exists>sG. grantWrite now b i s = Inr sG \<and>
            (s' = sG \<or>
             (\<exists>sM. markClaimed now tok sG = Inr sM \<and>
                (s' = sM \<or> claimAudit b i sM = Inr s'))))"
proof (cases "f = Some 0")
  case True
  then show ?thesis using assms by simp
next
  case f0: False
  show ?thesis
  proof (cases "grantWrite now b i s")
    case (Inl e)
    then show ?thesis using assms f0 by simp
  next
    case (Inr sG)
    obtain sM where sM: "markClaimed now tok sG = Inr sM" by (simp add: markClaimed_def)
    obtain sA where sA: "claimAudit b i sM = Inr sA" by (simp add: claimAudit_def)
    have "s' = sG \<or> s' = sM \<or> s' = sA"
      using assms f0 Inr sM sA by (auto split: if_splits)
    then show ?thesis using Inr sM sA by auto
  qed
qed

lemma processClaim_unfold:
  assumes "processClaimRead now tok s = Inr (ct, b, i)"
  shows "processClaim f now tok pe s =
     (case runWrites f (concat (map (linkWrites (identity_id i) pe) (productIds b)) @
                        [grantWrite now b i, markClaimed now tok, claimAudit b i]) s of
        (Some e, s') \<Rightarrow> (Inl e, s')
      | (None, s') \<Rightarrow> (Inr (b, i), s'))"
  using assms by (simp add: processClaim_def processClaimWrite_def claimWrites_def)

lemma processClaimRead_flag:
  assumes "processClaimRead now tok s = Inr (ct, b, i)"
  shows "claimedFlag tok s = Some False"
  using assms
  by (auto simp: processClaimRead_def claimedFlag_def split: option.splits if_splits prod.splits)

lemma processClaim_claimed_granted:
  assumes rd: "processClaimRead now tok s = Inr (ct, b, i)"
    and fl: "claimedFlag tok (snd (processClaim f now tok pe s)) = Some True"
  shows "bundleGranted i b (snd (processClaim f now tok pe s))"
proof -
  let ?L = "concat (map (linkWrites (identity_id i) pe) (productIds b))"
  let ?S = "[grantWrite now b i, markClaimed now tok, claimAudit b i]"
  obtain r1 sL where l: "runWrites f ?L s = (r1, sL)" by (cases "runWrites f ?L s")
  have fr: "claimTokens sL = claimTokens s"
    using links_frame [of f "identity_id i" pe "productIds b" s] l by simp
  have f0: "claimedFlag tok sL = Some False"
    using processClaimRead_flag [OF rd] claimedFlag_cong [OF fr] by simp
  show ?thesis
  proof (cases r1)
    case (Some e)
    then have "snd (processClaim f now tok pe s) = sL"
      using l by (simp add: processClaim_unfold [OF rd] runWrites_append)
    then show ?thesis using fl f0 by simp
  next
    case None
    obtain r2 s' where s2: "runWrites (map_option (\<lambda>k. k - length ?L) f) ?S sL = (r2, s')"
      by (cases "runWrites (map_option (\<lambda>k. k - length ?L) f) ?S sL")
    have s': "snd (processClaim f now tok pe s) = s'"
      using l None s2
      by (simp add: processClaim_unfold [OF rd] runWrites_append split: option.splits)
    have fl': "claimedFlag tok s' = Some True" using fl s' by simp
    from suffix_cases [OF s2]
    consider "s' = sL"
      | sG where "grantWrite now b i sL = Inr sG" "s' = sG"
      | sG sM where "grantWrite now b i sL = Inr sG" "markClaimed now tok sG = Inr sM" "s' = sM"
      | sG sM where "grantWrite now b i sL = Inr sG" "markClaimed now tok sG = Inr sM"
          "claimAudit b i sM = Inr s'"
      by blast
    then have "bundleGranted i b s'"
    proof cases
      case 1
      then show ?thesis using fl' f0 by simp
    next
      case 2
      then have "claimTokens s' = claimTokens sL" using grantWrite_granted [of now b i sL sG] by simp
      then show ?thesis using fl' f0 claimedFlag_cong [of s' sL tok] by simp
    next
      case 3
      then show ?thesis
        using grantWrite_granted [of now b i sL sG] markClaimed_effect [of now tok sG sM]
          bundleGranted_cong [of sM sG i b] by simp
    next
      case 4
      then show ?thesis
        using grantWrite_granted [of now b i sL sG] markClaimed_effect [of now tok sG sM]
          claimAudit_effect [of b i sM s'] bundleGranted_cong [of sM sG i b]
          bundleGranted_cong [of s' sM i b] by simp
    qed
    then show ?thesis using s' by simp
  qed
qed

lemma boundTo_resolve: "boundTo iid (toLowerCase e) p s \<Longrightarrow> resolveIdentity e p s = Some iid"
proof -
  assume b: "boundTo iid (toLowerCase e) p s"
  let ?P = "\<lambda>r. ie_email r = toLowerCase e \<and> ie_productId r = p"
  from b have "\<exists>r \<in> set (identityEmails s). ?P r" by (simp add: boundTo_def)
  then obtain r where r: "find ?P (identityEmails s) = Some r"
    by (cases "find ?P (identityEmails s)") (auto simp: find_None_iff)
  then have "r \<in> set (identityEmails s) \<and> ?P r" by (rule find_Some_mem)
  then have "ie_identityId r = iid" using b by (simp add: boundTo_def)
  then show ?thesis using r by (simp add: resolveIdentity_def)
qed

lemma boundTo_map:
  assumes eq: "identityEmails s' = map g (identityEmails s)"
    and key: "\<And>r. ie_email (g r) = ie_email r \<and> ie_productId (g r) = ie_productId r"
    and idn: "\<And>r. ie_identityId (g r) = ie_identityId r \<or> ie_identityId (g r) = iid"
    and b: "boundTo iid e p s"
  shows "boundTo iid e p s'"
proof -
  obtain r where r: "r \<in> set (identityEmails s)" "ie_email r = e" "ie_productId r = p"
    using b by (auto simp: boundTo_def)
  have "g r \<in> set (identityEmails s')" using r(1) eq by simp
  then have ex: "\<exists>r' \<in> set (identityEmails s'). ie_email r' = e \<and> ie_productId r' = p"
    using key [of r] r(2,3) by metis
  have "ie_identityId r' = iid"
    if m: "r' \<in> set (identityEmails s')" and k: "ie_email r' = e" "ie_productId r' = p" for r'
  proof -
    have "r' \<in> g ` set (identityEmails s)" using m eq by simp
    then obtain r0 where r0: "r0 \<in> set (identityEmails s)" "r' = g r0" by blast
    then have "ie_email r0 = e \<and> ie_productId r0 = p" using key [of r0] k by simp
    then have "ie_identityId r0 = iid" using b r0(1) by (simp add: boundTo_def)
    then show ?thesis using idn [of r0] r0(2) by auto
  qed
  then show ?thesis using ex by (auto simp: boundTo_def)
qed

lemma upsert_cases:
  "(find (\<lambda>r. ie_email r = e \<and> ie_productId r = p) (identityEmails s) = None \<and>
    identityEmails (upsertIdentityEmail True iid e p s) =
      identityEmails s @ [\<lparr>ie_identityId = iid, ie_email = e, ie_productId = p\<rparr>]) \<or>
   ((\<exists>x. find (\<lambda>r. ie_email r = e \<and> ie_productId r = p) (identityEmails s) = Some x) \<and>
    identityEmails (upsertIdentityEmail True iid e p s) =
      map (\<lambda>r. if ie_email r = e \<and> ie_productId r = p then r\<lparr>ie_identityId := iid\<rparr> else r)
        (identityEmails s))"
  by (cases "find (\<lambda>r. ie_email r = e \<and> ie_productId r = p) (identityEmails s)")
    (simp_all add: upsertIdentityEmail_def)

lemma rebind_all:
  assumes "r \<in> set (map (\<lambda>r. if ie_email r = e \<and> ie_productId r = p then r\<lparr>ie_identityId := iid\<rparr> else r) xs)"
    and "ie_email r = e \<and> ie_productId r = p"
  shows "ie_identityId r = iid"
proof -
  let ?g = "\<lambda>r. if ie_email r = e \<and> ie_productId r = p then r\<lparr>ie_identityId := iid\<rparr> else r"
  have "r \<in> ?g ` set xs" using assms(1) by (simp only: set_map)
  then obtain r0 where r0: "r = ?g r0" by (rule imageE)
  show ?thesis
  proof (cases "ie_email r0 = e \<and> ie_productId r0 = p")
    case True
    have "r = r0\<lparr>ie_identityId := iid\<rparr>" unfolding r0 by (rule if_P [OF True])
    then show ?thesis by simp
  next
    case False
    have "r = r0" unfolding r0 by (rule if_not_P [OF False])
    then show ?thesis using False assms(2) by simp
  qed
qed

lemma upsert_binds: "boundTo iid e p (upsertIdentityEmail True iid e p s)"
proof -
  let ?s' = "upsertIdentityEmail True iid e p s"
  let ?P = "\<lambda>r. ie_email r = e \<and> ie_productId r = p"
  from upsert_cases [of e p s iid] show ?thesis
  proof (elim disjE conjE exE)
    assume n: "find ?P (identityEmails s) = None"
      and eq: "identityEmails ?s' = identityEmails s @ [\<lparr>ie_identityId = iid, ie_email = e, ie_productId = p\<rparr>]"
    have "\<forall>r \<in> set (identityEmails s). \<not> ?P r" using n by (simp add: find_None_iff)
    then show ?thesis unfolding boundTo_def eq by auto
  next
    fix x
    assume f: "find ?P (identityEmails s) = Some x"
      and eq: "identityEmails ?s' = map (\<lambda>r. if ?P r then r\<lparr>ie_identityId := iid\<rparr> else r) (identityEmails s)"
    have x: "x \<in> set (identityEmails s)" "?P x" using find_Some_mem [OF f] by auto
    then have "x\<lparr>ie_identityId := iid\<rparr> \<in> set (identityEmails ?s')"
      unfolding eq by (auto simp: image_iff intro!: bexI [of _ x])
    then have ex: "\<exists>r \<in> set (identityEmails ?s'). ?P r"
      by (rule rev_bexI) (use x(2) in simp)
    have "ie_identityId r = iid" if "r \<in> set (identityEmails ?s')" "?P r" for r
      using that unfolding eq by (rule rebind_all)
    then show ?thesis using ex by (simp add: boundTo_def)
  qed
qed

lemma upsert_keeps:
  assumes "boundTo iid e p s"
  shows "boundTo iid e p (upsertIdentityEmail True iid e' p' s)"
proof -
  let ?s' = "upsertIdentityEmail True iid e' p' s"
  from upsert_cases [of e' p' s iid] show ?thesis
  proof (elim disjE conjE exE)
    assume eq: "identityEmails ?s' = identityEmails s @ [\<lparr>ie_identityId = iid, ie_email = e', ie_productId = p'\<rparr>]"
    show ?thesis using assms unfolding boundTo_def eq by auto
  next
    assume eq: "identityEmails ?s' =
      map (\<lambda>r. if ie_email r = e' \<and> ie_productId r = p' then r\<lparr>ie_identityId := iid\<rparr> else r)
        (identityEmails s)"
    show ?thesis by (rule boundTo_map [OF eq _ _ assms]) simp_all
  qed
qed

lemma isLinkWrite_keeps:
  assumes "isLinkWrite iid w" and "w s = Inr s'" and "boundTo iid e p s"
  shows "boundTo iid e p s'"
  using assms
  by (auto simp: isLinkWrite_def linkEmailToIdentity_def Let_def upsert_keeps)
     (simp add: boundTo_def)

lemma links_keep:
  assumes "boundTo iid e p s"
  shows "boundTo iid e p (snd (runWrites f (concat (map (linkWrites iid pe) ps)) s))"
proof (rule runWrites_inv [where P = "boundTo iid e p"])
  fix w t t'
  assume mem: "w \<in> set (concat (map (linkWrites iid pe) ps))" and wt: "w t = Inr t'"
    and t: "boundTo iid e p t"
  from mem have "isLinkWrite iid w" by (rule concat_linkWrites_isLinkWrite)
  then show "boundTo iid e p t'" using wt t by (rule isLinkWrite_keeps)
qed (rule assms)

lemma linkWrites_run:
  "runWrites None (linkWrites iid pe q) s =
     (None,
      case map_of pe q of
        None \<Rightarrow> s
      | Some pd \<Rightarrow>
          (let s1 = (if pd_email pd \<noteq> [] then linkEmailToIdentity iid (pd_email pd) q s else s)
           in case pd_formData pd of
                None \<Rightarrow> s1
              | Some fd \<Rightarrow> s1\<lparr>productSubmissions := productSubmissions s1 @
                                [\<lparr>ps_identityId = iid, ps_productId = q, formData = fd\<rparr>]\<rparr>))"
  by (simp add: linkWrites_def Let_def split: option.splits)

lemma links_step:
  "runWrites None (concat (map (linkWrites iid pe) (q # ps))) s =
     runWrites None (concat (map (linkWrites iid pe) ps)) (snd (runWrites None (linkWrites iid pe q) s))"
  by (simp add: runWrites_append linkWrites_run)

lemma links_bound:
  assumes "p \<in> set ps" and "map_of pe p = Some pd" and "pd_email pd \<noteq> []"
  shows "boundTo iid (toLowerCase (pd_email pd)) p
           (snd (runWrites None (concat (map (linkWrites iid pe) ps)) s))"
  using assms(1)
proof (induction ps arbitrary: s)
  case Nil
  then show ?case by simp
next
  case (Cons q ps)
  let ?s1 = "snd (runWrites None (linkWrites iid pe q) s)"
  show ?case
  proof (cases "p = q")
    case True
    have "boundTo iid (toLowerCase (pd_email pd)) p (linkEmailToIdentity iid (pd_email pd) p s)"
      by (simp add: linkEmailToIdentity_def Let_def upsert_binds)
    then have "boundTo iid (toLowerCase (pd_email pd)) p ?s1"
      using True assms(2,3)
      by (simp add: linkWrites_run Let_def boundTo_def split: option.splits)
    then show ?thesis unfolding links_step by (rule links_keep)
  next
    case False
    then have "p \<in> set ps" using Cons.prems by simp
    then show ?thesis unfolding links_step by (rule Cons.IH)
  qed
qed

lemma linkEmailToIdentity_submissions:
  "productSubmissions (linkEmailToIdentity iid e p s) = productSubmissions s"
  by (simp add: linkEmailToIdentity_def Let_def upsertIdentityEmail_def split: option.splits)

lemma links_submissions:
  "productSubmissions (snd (runWrites None (concat (map (linkWrites iid pe) ps)) s)) =
     productSubmissions s @ submissionsOf iid pe ps"
proof (induction ps arbitrary: s)
  case Nil
  then show ?case by (simp add: submissionsOf_def)
next
  case (Cons q ps)
  have "productSubmissions (snd (runWrites None (linkWrites iid pe q) s)) =
          productSubmissions s @ submissionsOf iid pe [q]"
    by (simp add: linkWrites_run Let_def submissionsOf_def linkEmailToIdentity_submissions
        split: option.splits)
  moreover have "submissionsOf iid pe (q # ps) = submissionsOf iid pe [q] @ submissionsOf iid pe ps"
    by (simp add: submissionsOf_def)
  ultimately show ?case unfolding links_step by (simp add: Cons.IH)
qed

lemma boundTo_cong: "identityEmails s' = identityEmails s \<Longrightarrow> boundTo iid e p s' = boundTo iid e p s"
  by (simp add: boundTo_def)

lemma grantWrite_valid:
  assumes "grantExpiry (hostZone s) now (claimGrantParams b i) \<noteq> Some InvalidDate"
  shows "\<exists>sG. grantWrite now b i s = Inr sG"
  using assms by (simp add: grantWrite_def grantAccess_def Let_def)

lemma processClaim_success:
  assumes rd: "processClaimRead now tok s = Inr (ct, b, i)"
    and valid: "grantExpiry (hostZone s) now (claimGrantParams b i) \<noteq> Some InvalidDate"
  shows "fst (processClaim None now tok pe s) = Inr (b, i) \<and>
     claimedFlag tok (snd (processClaim None now tok pe s)) = Some True \<and>
     bundleGranted i b (snd (processClaim None now tok pe s)) \<and>
     auditLogs (snd (processClaim None now tok pe s)) = auditLogs s @
       [\<lparr>action = ''grant'', al_identityId = identity_id i, al_productIds = productIds b,
         adminEmail = None\<rparr>,
        \<lparr>action = ''claim'', al_identityId = identity_id i, al_productIds = productIds b,
         adminEmail = None\<rparr>] \<and>
     productSubmissions (snd (processClaim None now tok pe s)) =
       productSubmissions s @ submissionsOf (identity_id i) pe (productIds b) \<and>
     (\<forall>p \<in> set (productIds b). \<forall>pd. map_of pe p = Some pd \<longrightarrow> pd_email pd \<noteq> [] \<longrightarrow>
        resolveIdentity (pd_email pd) p (snd (processClaim None now tok pe s)) = Some (identity_id i))"
proof -
  let ?L = "concat (map (linkWrites (identity_id i) pe) (productIds b))"
  obtain r sL where rl: "runWrites None ?L s = (r, sL)" by (cases "runWrites None ?L s")
  have "r = None"
    using links_total [of "identity_id i" pe "productIds b" s] rl by simp
  then have l: "runWrites None ?L s = (None, sL)" using rl by simp
  have fr: "claimTokens sL = claimTokens s" "auditLogs sL = auditLogs s"
    using links_frame [of None "identity_id i" pe "productIds b" s] l by simp_all
  have hz: "hostZone sL = hostZone s"
    using links_hostZone [of None "identity_id i" pe "productIds b" s] l by simp
  obtain sG where g: "grantWrite now b i sL = Inr sG"
    using grantWrite_valid [of sL now b i] valid hz by auto
  obtain sM where m: "markClaimed now tok sG = Inr sM" by (simp add: markClaimed_def)
  obtain sA where a: "claimAudit b i sM = Inr sA" by (simp add: claimAudit_def)
  have run: "runWrites None (?L @ [grantWrite now b i, markClaimed now tok, claimAudit b i]) s = (None, sA)"
    by (simp add: runWrites_append l g m a)
  have res: "processClaim None now tok pe s = (Inr (b, i), sA)"
    by (simp add: processClaim_unfold [OF rd] run)
  note G = grantWrite_granted [OF g]
  note M = markClaimed_effect [OF m]
  note A = claimAudit_effect [OF a]
  have tokfound: "find (\<lambda>c. token c = tok) (claimTokens s) \<noteq> None"
    using processClaimRead_flag [OF rd] by (auto simp: claimedFlag_def)
  have "claimTokens sA =
          map (\<lambda>c. if token c = tok then c\<lparr>claimed := True, claimedAt := Some now\<rparr> else c) (claimTokens s)"
    using G M A fr by simp
  then have c1: "claimedFlag tok sA = Some True"
    using tokfound by (auto simp: claimedFlag_def find_map_claimed)
  have c2: "bundleGranted i b sA"
    using G M A bundleGranted_cong [of sA sG i b] by simp
  have c3: "auditLogs sA = auditLogs s @
       [\<lparr>action = ''grant'', al_identityId = identity_id i, al_productIds = productIds b,
         adminEmail = None\<rparr>,
        \<lparr>action = ''claim'', al_identityId = identity_id i, al_productIds = productIds b,
         adminEmail = None\<rparr>]"
    using G M A fr by simp
  have c4: "productSubmissions sA = productSubmissions s @ submissionsOf (identity_id i) pe (productIds b)"
    using G M A links_submissions [of "identity_id i" pe "productIds b" s] l by simp
  have ie: "identityEmails sA = identityEmails sL" using G M A by simp
  have c5: "resolveIdentity (pd_email pd) p sA = Some (identity_id i)"
    if "p \<in> set (productIds b)" "map_of pe p = Some pd" "pd_email pd \<noteq> []" for p pd
  proof -
    have "boundTo (identity_id i) (toLowerCase (pd_email pd)) p (snd (runWrites None ?L s))"
      using that by (rule links_bound)
    then have "boundTo (identity_id i) (toLowerCase (pd_email pd)) p sL"
      using l by simp
    then have "boundTo (identity_id i) (toLowerCase (pd_email pd)) p sA"
      using boundTo_cong [OF ie] by simp
    then show ?thesis by (rule boundTo_resolve)
  qed
  show ?thesis
    unfolding res using c1 c2 c3 c4 c5 by simp
qed

text \<open>
  Claim C3, as the code has it.  A failed validation of the token changes nothing.
  When the store does not fail and the expiry is a valid date, the activation
  succeeds: the supplied emails resolve to the identity, the form submissions are
  stored, every product of the bundle has an unrevoked bundle row, the token is
  claimed, and the audit log has the grant entry of the ledger and the claim entry.
  Whatever write fails, a token that the activation has marked claimed has its
  bundle grant in place.
\<close>

theorem processClaim_effects:
  "(\<forall>e. processClaimRead now tok s = Inl e \<longrightarrow> processClaim failAt now tok pe s = (Inl e, s)) \<and>
   (\<forall>ct b i. processClaimRead now tok s = Inr (ct, b, i) \<longrightarrow>
      (claimedFlag tok (snd (processClaim failAt now tok pe s)) = Some True \<longrightarrow>
         bundleGranted i b (snd (processClaim failAt now tok pe s))) \<and>
      (grantExpiry (hostZone s) now (claimGrantParams b i) \<noteq> Some InvalidDate \<longrightarrow>
         fst (processClaim None now tok pe s) = Inr (b, i) \<and>
         claimedFlag tok (snd (processClaim None now tok pe s)) = Some True \<and>
         bundleGranted i b (snd (processClaim None now tok pe s)) \<and>
         auditLogs (snd (processClaim None now tok pe s)) = auditLogs s @
           [\<lparr>action = ''grant'', al_identityId = identity_id i, al_productIds = productIds b,
             adminEmail = None\<rparr>,
            \<lparr>action = ''claim'', al_identityId = identity_id i, al_productIds = productIds b,
             adminEmail = None\<rparr>] \<and>
         productSubmissions (snd (processClaim None now tok pe s)) =
           productSubmissions s @ submissionsOf (identity_id i) pe (productIds b) \<and>
         (\<forall>p \<in> set (productIds b). \<forall>pd. map_of pe p = Some pd \<longrightarrow> pd_email pd \<noteq> [] \<longrightarrow>
            resolveIdentity (pd_email pd) p (snd (processClaim None now tok pe s)) =
              Some (identity_id i))))"
proof (intro conjI allI impI ballI)
  fix e assume "processClaimRead now tok s = Inl e"
  then show "processClaim failAt now tok pe s = (Inl e, s)" by (simp add: processClaim_def)
next
  fix ct b i
  assume "processClaimRead now tok s = Inr (ct, b, i)"
    and "claimedFlag tok (snd (processClaim failAt now tok pe s)) = Some True"
  then show "bundleGranted i b (snd (processClaim failAt now tok pe s))"
    by (rule processClaim_claimed_granted)
next
  fix ct b i
  assume "processClaimRead now tok s = Inr (ct, b, i)"
    and "grantExpiry (hostZone s) now (claimGrantParams b i) \<noteq> Some InvalidDate"
  then show "fst (processClaim None now tok pe s) = Inr (b, i)"
    using processClaim_success [of now tok s ct b i pe] by simp
next
  fix ct b i
  assume "processClaimRead now tok s = Inr (ct, b, i)"
    and "grantExpiry (hostZone s) now (claimGrantParams b i) \<noteq> Some InvalidDate"
  then show "claimedFlag tok (snd (processClaim None now tok pe s)) = Some True"
    using processClaim_success [of now tok s ct b i pe] by simp
next
  fix ct b i
  assume "processClaimRead now tok s = Inr (ct, b, i)"
    and "grantExpiry (hostZone s) now (claimGrantParams b i) \<noteq> Some InvalidDate"
  then show "bundleGranted i b (snd (processClaim None now tok pe s))"
    using processClaim_success [of now tok s ct b i pe] by simp
next
  fix ct b i
  assume "processClaimRead now tok s = Inr (ct, b, i)"
    and "grantExpiry (hostZone s) now (claimGrantParams b i) \<noteq> Some InvalidDate"
  then show "auditLogs (snd (processClaim None now tok pe s)) = auditLogs s @
           [\<lparr>action = ''grant'', al_identityId = identity_id i, al_productIds = productIds b,
             adminEmail = None\<rparr>,
            \<lparr>action = ''claim'', al_identityId = identity_id i, al_productIds = productIds b,
             adminEmail = None\<rparr>]"
    using processClaim_success [of now tok s ct b i pe] by simp
next
  fix ct b i
  assume "processClaimRead now tok s = Inr (ct, b, i)"
    and "grantExpiry (hostZone s) now (claimGrantParams b i) \<noteq> Some InvalidDate"
  then show "productSubmissions (snd (processClaim None now tok pe s)) =
           productSubmissions s @ submissionsOf (identity_id i) pe (productIds b)"
    using processClaim_success [of now tok s ct b i pe] by simp
next
  fix ct b i p pd
  assume "processClaimRead now tok s = Inr (ct, b, i)"
    and "grantExpiry (hostZone s) now (claimGrantParams b i) \<noteq> Some InvalidDate"
    and "p \<in> set (productIds b)" "map_of pe p = Some pd" "pd_email pd \<noteq> []"
  then show "resolveIdentity (pd_email pd) p (snd (processClaim None now tok pe s)) = Some (identity_id i)"
    using processClaim_success [of now tok s ct b i pe] by simp
qed

text \<open>
  The buyer's activation on 20 January 2025 with a store that does not fail: the
  token is valid, the activation succeeds, the token is claimed, both products are
  granted and the work email resolves to the buyer for \<open>rezume\<close>.  An unknown
  token is rejected and the store is as before.
\<close>

theorem processClaim_effects_witness:
  "processClaimRead (utc 2025 0 20) ''tok_1'' claimState = Inr (buyerToken, proSuite, buyer) \<and>
   grantExpiry (hostZone claimState) (utc 2025 0 20) (claimGrantParams proSuite buyer) \<noteq> Some InvalidDate \<and>
   fst (processClaim None (utc 2025 0 20) ''tok_1'' claimData claimState) = Inr (proSuite, buyer) \<and>
   claimedFlag ''tok_1'' (snd (processClaim None (utc 2025 0 20) ''tok_1'' claimData claimState)) = Some True \<and>
   bundleGranted buyer proSuite (snd (processClaim None (utc 2025 0 20) ''tok_1'' claimData claimState)) \<and>
   processClaimRead (utc 2025 0 20) ''tok_0'' claimState = Inl InvalidClaimToken \<and>
   processClaim None (utc 2025 0 20) ''tok_0'' claimData claimState = (Inl InvalidClaimToken, claimState)"
proof -
  have rd: "processClaimRead (utc 2025 0 20) ''tok_1'' claimState = Inr (buyerToken, proSuite, buyer)"
    by code_simp
  have v: "grantExpiry (hostZone claimState) (utc 2025 0 20) (claimGrantParams proSuite buyer) \<noteq> Some InvalidDate"
    by code_simp
  have bad: "processClaimRead (utc 2025 0 20) ''tok_0'' claimState = Inl InvalidClaimToken"
    by code_simp
  note T = processClaim_effects [of "utc 2025 0 20" "''tok_1''" claimState None claimData]
  note U = processClaim_effects [of "utc 2025 0 20" "''tok_0''" claimState None claimData]
  have 1: "fst (processClaim None (utc 2025 0 20) ''tok_1'' claimData claimState) = Inr (proSuite, buyer) \<and>
   claimedFlag ''tok_1'' (snd (processClaim None (utc 2025 0 20) ''tok_1'' claimData claimState)) = Some True \<and>
   bundleGranted buyer proSuite (snd (processClaim None (utc 2025 0 20) ''tok_1'' claimData claimState))"
    using T rd v by simp
  have 2: "processClaim None (utc 2025 0 20) ''tok_0'' claimData claimState = (Inl InvalidClaimToken, claimState)"
    using U bad by simp
  show ?thesis using rd v bad 1 2 by simp
qed

text \<open>
  Claim C3 as stated fails.  In the same activation the store fails at the fifth
  write, the update that marks the token claimed: the call fails, both products are
  granted, and the token is still unclaimed.
\<close>

theorem processClaim_partial_counterexample:
  "fst (processClaim (Some 4) (utc 2025 0 20) ''tok_1'' claimData claimState) = Inl PersistenceFailure \<and>
   bundleGranted buyer proSuite (snd (processClaim (Some 4) (utc 2025 0 20) ''tok_1'' claimData claimState)) \<and>
   claimedFlag ''tok_1'' (snd (processClaim (Some 4) (utc 2025 0 20) ''tok_1'' claimData claimState)) = Some False"
  by code_simp

lemma suffix_success:
  assumes "runWrites f [grantWrite now b i, markClaimed now tok, claimAudit b i] s = (None, s')"
  shows "\<exists>sG sM. grantWrite now b i s = Inr sG \<and> markClaimed now tok sG = Inr sM \<and>
           claimAudit b i sM = Inr s'"
proof -
  have f0: "f \<noteq> Some 0" using assms by auto
  obtain sG where g: "grantWrite now b i s = Inr sG"
    using assms f0 by (cases "grantWrite now b i s") auto
  obtain sM where m: "markClaimed now tok sG = Inr sM" by (simp add: markClaimed_def)
  obtain sA where a: "claimAudit b i sM = Inr sA" by (simp add: claimAudit_def)
  have "s' = sA" using assms f0 g m a by (auto split: if_splits)
  then show ?thesis using g m a by simp
qed

lemma processClaim_Inr_state:
  assumes rd: "processClaimRead now tok s = Inr (ct, b, i)"
    and ok: "fst (processClaim f now tok pe s) = Inr r"
  shows "claimTokens (snd (processClaim f now tok pe s)) =
           map (\<lambda>c. if token c = tok then c\<lparr>claimed := True, claimedAt := Some now\<rparr> else c) (claimTokens s) \<and>
         bundles (snd (processClaim f now tok pe s)) = bundles s \<and>
         identities (snd (processClaim f now tok pe s)) = identities s"
proof -
  let ?L = "concat (map (linkWrites (identity_id i) pe) (productIds b))"
  let ?S = "[grantWrite now b i, markClaimed now tok, claimAudit b i]"
  obtain r1 sL where l: "runWrites f ?L s = (r1, sL)" by (cases "runWrites f ?L s")
  have fr: "claimTokens sL = claimTokens s" "bundles sL = bundles s" "identities sL = identities s"
    using links_frame [of f "identity_id i" pe "productIds b" s] l by simp_all
  have r1: "r1 = None"
    using ok l by (cases r1) (simp_all add: processClaim_unfold [OF rd] runWrites_append)
  obtain r2 s' where s2: "runWrites (map_option (\<lambda>k. k - length ?L) f) ?S sL = (r2, s')"
    by (cases "runWrites (map_option (\<lambda>k. k - length ?L) f) ?S sL")
  have pc: "processClaim f now tok pe s = (case r2 of Some e \<Rightarrow> (Inl e, s') | None \<Rightarrow> (Inr (b, i), s'))"
    using l r1 s2 by (simp add: processClaim_unfold [OF rd] runWrites_append)
  then have r2: "r2 = None" using ok by (cases r2) simp_all
  then have s': "snd (processClaim f now tok pe s) = s'" using pc by simp
  obtain sG sM where "grantWrite now b i sL = Inr sG" "markClaimed now tok sG = Inr sM"
    "claimAudit b i sM = Inr s'"
    using suffix_success [OF s2 [unfolded r2]] by blast
  then show ?thesis
    unfolding s'
    using grantWrite_granted [of now b i sL sG] markClaimed_effect [of now tok sG sM]
      claimAudit_effect [of b i sM s'] fr by simp
qed

lemma processClaim_Inr_read:
  assumes "fst (processClaim f now tok pe s) = Inr r"
  shows "\<exists>ct b i. processClaimRead now tok s = Inr (ct, b, i)"
  using assms by (cases "processClaimRead now tok s") (auto simp: processClaim_def)

lemma processClaimRead_claimed:
  assumes rd: "processClaimRead now tok s = Inr (ct, b, i)"
    and ct: "claimTokens s' =
           map (\<lambda>c. if token c = tok then c\<lparr>claimed := True, claimedAt := Some now\<rparr> else c) (claimTokens s)"
    and bs: "bundles s' = bundles s" and ids: "identities s' = identities s"
  shows "processClaimRead now' tok s' = Inl TokenAlreadyClaimed"
proof -
  obtain c where c: "find (\<lambda>c. token c = tok) (claimTokens s) = Some c"
    using rd by (cases "find (\<lambda>c. token c = tok) (claimTokens s)") (simp_all add: processClaimRead_def)
  have rel: "find (\<lambda>x. bundle_id x = ct_bundleId c) (bundles s) \<noteq> None \<and>
             find (\<lambda>x. identity_id x = ct_identityId c) (identities s) \<noteq> None"
    using rd c by (auto simp: processClaimRead_def split: option.splits)
  have "find (\<lambda>c. token c = tok) (claimTokens s') = Some (c\<lparr>claimed := True, claimedAt := Some now\<rparr>)"
    unfolding ct find_map_claimed c by simp
  then show ?thesis
    using rel by (auto simp: processClaimRead_def bs ids split: option.splits)
qed

text \<open>
  Claim C4, as the code has it.  The claimed flag is set by a read of the token
  followed, after the other writes, by an unconditional update.  Calls that run one
  after the other have at most one success: once an activation of a token has
  succeeded, every later activation of it fails with ``Token already claimed'' and
  changes nothing.
\<close>

theorem processClaim_sequential:
  "fst (processClaim failAt now tok pe s) = Inr r \<longrightarrow>
   processClaim failAt' now' tok pe' (snd (processClaim failAt now tok pe s)) =
     (Inl TokenAlreadyClaimed, snd (processClaim failAt now tok pe s))"
proof
  assume ok: "fst (processClaim failAt now tok pe s) = Inr r"
  then obtain ct b i where rd: "processClaimRead now tok s = Inr (ct, b, i)"
    using processClaim_Inr_read by blast
  note st = processClaim_Inr_state [OF rd ok]
  have "processClaimRead now' tok (snd (processClaim failAt now tok pe s)) = Inl TokenAlreadyClaimed"
    by (rule processClaimRead_claimed
        [OF rd st [THEN conjunct1] st [THEN conjunct2, THEN conjunct1]
          st [THEN conjunct2, THEN conjunct2]])
  then show "processClaim failAt' now' tok pe' (snd (processClaim failAt now tok pe s)) =
     (Inl TokenAlreadyClaimed, snd (processClaim failAt now tok pe s))"
    by (simp add: processClaim_def)
qed

text \<open>The buyer's activation succeeds; the same request a day later is rejected.\<close>

theorem processClaim_sequential_witness:
  "fst (processClaim None (utc 2025 0 20) ''tok_1'' claimData claimState) = Inr (proSuite, buyer) \<and>
   processClaim None (utc 2025 0 21) ''tok_1'' claimData
       (snd (processClaim None (utc 2025 0 20) ''tok_1'' claimData claimState)) =
     (Inl TokenAlreadyClaimed, snd (processClaim None (utc 2025 0 20) ''tok_1'' claimData claimState))"
proof -
  have ok: "fst (processClaim None (utc 2025 0 20) ''tok_1'' claimData claimState) = Inr (proSuite, buyer)"
    by code_simp
  then show ?thesis
    using processClaim_sequential [of None "utc 2025 0 20" "''tok_1''" claimData claimState
        "(proSuite, buyer)" None "utc 2025 0 21" claimData]
    by simp
qed

text \<open>
  Claim C4 as stated fails.  Two activations of the buyer's token both read the
  token before either writes: both pass the three checks, both run their writes,
  both succeed, and the bundle is granted twice.
\<close>

theorem processClaim_race_counterexample:
  "processClaimRead (utc 2025 0 20) ''tok_1'' claimState = Inr (buyerToken, proSuite, buyer) \<and>
   fst (processClaimWrite None (utc 2025 0 20) ''tok_1'' claimData (buyerToken, proSuite, buyer) claimState) =
     Inr (proSuite, buyer) \<and>
   fst (processClaimWrite None (utc 2025 0 20) ''tok_1'' claimData (buyerToken, proSuite, buyer)
          (snd (processClaimWrite None (utc 2025 0 20) ''tok_1'' claimData (buyerToken, proSuite, buyer)
                  claimState))) =
     Inr (proSuite, buyer) \<and>
   map action (auditLogs
     (snd (processClaimWrite None (utc 2025 0 20) ''tok_1'' claimData (buyerToken, proSuite, buyer)
        (snd (processClaimWrite None (utc 2025 0 20) ''tok_1'' claimData (buyerToken, proSuite, buyer)
                claimState))))) =
     [''grant'', ''claim'', ''grant'', ''claim'']"
  by code_simp

end
